theory Spec2Isabelle
  imports Complex_Main "HOL-Library.Multiset" "HOL-Library.AList" "HOL-Library.Word"
begin

section \<open>The index store (core.py, class SearchDB)\<close>

text \<open>
  The database file holds three tables: \<open>docs\<close> (the chunk records), the FTS5 table
  \<open>docs_fts\<close> (one entry per rowid, mirroring \<open>content\<close>) and the vec0 table
  \<open>docs_vec\<close> (\<open>id INTEGER PRIMARY KEY, embedding FLOAT[768]\<close>). The tables are modelled
  as lists of rows, so that a missing or a duplicated row is visible. The connection is
  never put into a transaction (no BEGIN/COMMIT in core.py), so every statement commits
  on its own; an exception raised by a later statement leaves the earlier ones in
  place. Every mutating operation therefore returns the store it leaves behind together
  with either its result or the error it raised.

  Embedding components are real numbers here; \<open>serialize_float32\<close> is assumed to pack
  them. The metadata argument is the JSON text that \<open>orjson.dumps\<close> produces, or
  \<open>None\<close>.
\<close>

datatype db_error = DimensionMismatch | PrimaryKeyViolation | Fts5SyntaxError

record doc_row =
  doc_id :: int
  source :: string
  chunk_index :: int
  content :: string
  metadata :: string

record search_db =
  docs :: "doc_row list"
  docs_fts :: "(int \<times> string) list"
  docs_vec :: "(int \<times> real list) list"

type_synonym item = "string \<times> int \<times> string \<times> real list \<times> string option"

definition empty_db :: search_db where
  "empty_db = \<lparr>docs = [], docs_fts = [], docs_vec = []\<rparr>"

text \<open>The declared width of the vector column, \<open>FLOAT[768]\<close>.\<close>

definition DIMENSIONS :: nat where
  "DIMENSIONS = 768"

text \<open>
  \<open>id INTEGER PRIMARY KEY\<close> without AUTOINCREMENT: the engine assigns the largest rowid
  in the table plus one, and 1 in an empty table.
\<close>

definition next_rowid :: "doc_row list \<Rightarrow> int" where
  "next_rowid ds = (case ds of [] \<Rightarrow> 1 | d # ds' \<Rightarrow> fold max (map doc_id ds') (doc_id d) + 1)"

text \<open>\<open>metadata or {}\<close>, serialised.\<close>

definition metadata_json :: "string option \<Rightarrow> string" where
  "metadata_json md = (case md of None \<Rightarrow> ''{}'' | Some s \<Rightarrow> s)"

text \<open>The parts of an item \<open>(source, chunk_index, content, embedding, metadata)\<close>, and the
  chunk record that is stored for it under the id \<open>i\<close>.\<close>

definition item_content :: "item \<Rightarrow> string" where
  "item_content it = (case it of (src, ci, c, emb, md) \<Rightarrow> c)"

definition item_embedding :: "item \<Rightarrow> real list" where
  "item_embedding it = (case it of (src, ci, c, emb, md) \<Rightarrow> emb)"

definition item_row :: "int \<Rightarrow> item \<Rightarrow> doc_row" where
  "item_row i it = (case it of (src, ci, c, emb, md) \<Rightarrow>
     \<lparr>doc_id = i, source = src, chunk_index = ci, content = c, metadata = metadata_json md\<rparr>)"

text \<open>
  \<open>INSERT INTO docs (source, chunk_index, content, metadata) VALUES (?, ?, ?, ?)\<close>
  together with the trigger \<open>docs_ai\<close>, which inserts \<open>(new.id, new.content)\<close> into
  \<open>docs_fts\<close> in the same statement. Returns \<open>last_insert_rowid()\<close> and the store.
\<close>

definition insert_docs :: "search_db \<Rightarrow> string \<Rightarrow> int \<Rightarrow> string \<Rightarrow> string option \<Rightarrow> int \<times> search_db" where
  "insert_docs db src ci c md =
     (let i = next_rowid (docs db);
          row = \<lparr>doc_id = i, source = src, chunk_index = ci, content = c,
                 metadata = metadata_json md\<rparr>
      in (i, db\<lparr>docs := docs db @ [row], docs_fts := docs_fts db @ [(i, c)]\<rparr>))"

text \<open>
  \<open>INSERT INTO docs_vec (id, embedding) VALUES (?, ?)\<close>: the vec0 table rejects a vector
  whose length is not the declared one, and a primary key that is already present.
\<close>

definition insert_docs_vec :: "search_db \<Rightarrow> int \<Rightarrow> real list \<Rightarrow> db_error + search_db" where
  "insert_docs_vec db i emb =
     (if length emb \<noteq> DIMENSIONS then Inl DimensionMismatch
      else if i \<in> set (map fst (docs_vec db)) then Inl PrimaryKeyViolation
      else Inr (db\<lparr>docs_vec := docs_vec db @ [(i, emb)]\<rparr>))"

definition index_document ::
  "search_db \<Rightarrow> string \<Rightarrow> int \<Rightarrow> string \<Rightarrow> real list \<Rightarrow> string option \<Rightarrow> (db_error + int) \<times> search_db" where
  "index_document db src ci c emb md =
     (case insert_docs db src ci c md of
        (i, db1) \<Rightarrow>
          (case insert_docs_vec db1 i emb of
             Inl e \<Rightarrow> (Inl e, db1)
           | Inr db2 \<Rightarrow> (Inr i, db2)))"

text \<open>The loop of \<open>index_batch\<close>; \<open>ids\<close> is the list \<open>doc_ids\<close> built so far.\<close>

fun index_batch_loop ::
  "search_db \<Rightarrow> item list \<Rightarrow> int list \<Rightarrow> (db_error + int list) \<times> search_db" where
  "index_batch_loop db [] ids = (Inr ids, db)"
| "index_batch_loop db ((src, ci, c, emb, md) # rest) ids =
     (case insert_docs db src ci c md of
        (i, db1) \<Rightarrow>
          (case insert_docs_vec db1 i emb of
             Inl e \<Rightarrow> (Inl e, db1)
           | Inr db2 \<Rightarrow> index_batch_loop db2 rest (ids @ [i])))"

definition index_batch :: "search_db \<Rightarrow> item list \<Rightarrow> (db_error + int list) \<times> search_db" where
  "index_batch db items = index_batch_loop db items []"

text \<open>\<open>DELETE FROM docs_vec WHERE id = ?\<close>\<close>

definition delete_docs_vec :: "int \<Rightarrow> search_db \<Rightarrow> search_db" where
  "delete_docs_vec i db = db\<lparr>docs_vec := filter (\<lambda>r. fst r \<noteq> i) (docs_vec db)\<rparr>"

text \<open>
  \<open>DELETE FROM docs WHERE source = ?\<close> with the trigger \<open>docs_ad\<close>: for every deleted
  row the FTS5 \<open>'delete'\<close> command takes the entry \<open>(old.id, old.content)\<close> out of the
  index.
\<close>

definition delete_docs :: "string \<Rightarrow> search_db \<Rightarrow> search_db" where
  "delete_docs src db =
     db\<lparr>docs := filter (\<lambda>d. source d \<noteq> src) (docs db),
        docs_fts := fold (\<lambda>d f. remove1 (doc_id d, content d) f)
                      (filter (\<lambda>d. source d = src) (docs db)) (docs_fts db)\<rparr>"

definition delete_source :: "search_db \<Rightarrow> string \<Rightarrow> nat \<times> search_db" where
  "delete_source db src =
     (let ids = map doc_id (filter (\<lambda>d. source d = src) (docs db))
      in if ids \<noteq> [] then (length ids, delete_docs src (fold delete_docs_vec ids db))
         else (length ids, db))"

text \<open>
  The consistency of the three tables: ids of \<open>docs\<close> are unique, the FTS index holds
  exactly the pairs (id, content) of the chunk records, and the ids of the vector rows
  are exactly the ids of the chunk records, each once (equality of multisets).
\<close>

definition consistent :: "search_db \<Rightarrow> bool" where
  "consistent db \<longleftrightarrow>
     distinct (map doc_id (docs db)) \<and>
     mset (docs_fts db) = mset (map (\<lambda>d. (doc_id d, content d)) (docs db)) \<and>
     mset (map fst (docs_vec db)) = mset (map doc_id (docs db))"

section \<open>The search engine (core.py, SearchDB.search_*)\<close>

text \<open>
  Scores are real numbers here: the model computes the arithmetic of the source
  exactly, where Python rounds to 64-bit floats. A result dictionary is a record; the
  keys that only some result kinds carry (\<open>score\<close>, \<open>distance\<close>) are optional fields.

  The storage engine is a parameter. \<open>fts q\<close> is what the statement
  \<open>SELECT ... FROM docs_fts f JOIN docs d ... WHERE docs_fts MATCH ? ORDER BY score\<close>
  does for the query \<open>q\<close> before the \<open>LIMIT\<close>: it raises the error of FTS5 for a query
  that is not in its syntax (\<^verbatim>\<open>what?\<close>, \<^verbatim>\<open>quick-fox\<close>, the empty string), or yields the
  list of matching rows, each with its BM25 score. \<open>knn v n\<close> is the list of rows the
  vec0 table yields for \<open>embedding MATCH ? AND k = ?\<close> joined with \<open>docs\<close>, each with its
  distance. The order in which Python enumerates the set \<open>all_ids\<close> is not fixed by the
  language; it is the parameter \<open>iter\<close>.
\<close>

datatype py_error = SqlError db_error | ZeroDivisionError | KeyError

record search_result =
  r_id :: int
  r_source :: string
  r_chunk_index :: int
  r_content :: string
  r_metadata :: string
  r_score :: "real option"
  r_distance :: "real option"
  r_rank :: int

record hybrid_result = search_result +
  rrf_score :: real
  bm25_rank :: "int option"
  vec_rank :: "int option"

record reranked_result = hybrid_result +
  rerank_score :: real

text \<open>\<open>enumerate(xs, i)\<close>\<close>

fun py_enumerate :: "int \<Rightarrow> 'a list \<Rightarrow> (int \<times> 'a) list" where
  "py_enumerate i [] = []"
| "py_enumerate i (x # xs) = (i, x) # py_enumerate (i + 1) xs"

text \<open>The slice \<open>xs[:n]\<close>: a negative \<open>n\<close> counts from the end.\<close>

definition py_slice_to :: "int \<Rightarrow> 'a list \<Rightarrow> 'a list" where
  "py_slice_to n xs = (if 0 \<le> n then take (nat n) xs else take (length xs - nat (- n)) xs)"

text \<open>SQL \<open>LIMIT n\<close>: a negative \<open>n\<close> means no limit.\<close>

definition sql_limit :: "int \<Rightarrow> 'a list \<Rightarrow> 'a list" where
  "sql_limit n xs = (if n < 0 then xs else take (nat n) xs)"

text \<open>
  \<open>xs.sort(key=..., reverse=True)\<close>: descending by key, and stable (elements with
  equal keys keep their order), written as an insertion sort from the right.
\<close>

fun insort_desc :: "('a \<Rightarrow> real) \<Rightarrow> 'a \<Rightarrow> 'a list \<Rightarrow> 'a list" where
  "insort_desc key x [] = [x]"
| "insort_desc key x (y # ys) =
     (if key y \<le> key x then x # y # ys else y # insort_desc key x ys)"

definition py_sort_desc :: "('a \<Rightarrow> real) \<Rightarrow> 'a list \<Rightarrow> 'a list" where
  "py_sort_desc key xs = foldr (insort_desc key) xs []"

text \<open>
  \<open>search_bm25\<close>. SQLite does not run a statement whose \<open>LIMIT\<close> is 0, so the error of
  \<open>MATCH\<close> arises for every other limit only.
\<close>

definition search_bm25 ::
  "(string \<Rightarrow> db_error + (doc_row \<times> real) list) \<Rightarrow> string \<Rightarrow> int \<Rightarrow> py_error + search_result list" where
  "search_bm25 fts query limit =
     (if limit = 0 then Inr []
      else case fts query of
        Inl e \<Rightarrow> Inl (SqlError e)
      | Inr rows \<Rightarrow>
          Inr (map (\<lambda>(rank, (d, score)).
                  \<lparr>r_id = doc_id d, r_source = source d, r_chunk_index = chunk_index d,
                   r_content = content d, r_metadata = metadata d,
                   r_score = Some score, r_distance = None, r_rank = rank\<rparr>)
                (py_enumerate 1 (sql_limit limit rows))))"

text \<open>The vec0 table rejects a query vector whose length is not the declared one.\<close>

definition search_vector ::
  "(real list \<Rightarrow> int \<Rightarrow> (doc_row \<times> real) list) \<Rightarrow> real list \<Rightarrow> int \<Rightarrow> py_error + search_result list" where
  "search_vector knn embedding limit =
     (if length embedding \<noteq> DIMENSIONS then Inl (SqlError DimensionMismatch)
      else Inr (map (\<lambda>(rank, (d, distance)).
                  \<lparr>r_id = doc_id d, r_source = source d, r_chunk_index = chunk_index d,
                   r_content = content d, r_metadata = metadata d,
                   r_score = None, r_distance = Some distance, r_rank = rank\<rparr>)
                (py_enumerate 1 (knn embedding limit))))"

text \<open>
  A Python dictionary is an association list with distinct keys in insertion order;
  \<open>d[k] = v\<close> is \<open>AList.update\<close> (it replaces the value of a key that is present and
  appends otherwise), \<open>d.get(k)\<close> is \<open>map_of\<close>.

  \<open>{r["id"]: r["rank"] for r in results}\<close>: a later entry replaces an earlier one.
\<close>

definition rank_map :: "search_result list \<Rightarrow> (int \<times> int) list" where
  "rank_map results = fold (\<lambda>r m. AList.update (r_id r) (r_rank r) m) results []"

text \<open>\<open>result_lookup\<close>: the first result with each id.\<close>

definition result_lookup :: "search_result list \<Rightarrow> (int \<times> search_result) list" where
  "result_lookup results =
     fold (\<lambda>r m. if r_id r \<in> set (map fst m) then m else AList.update (r_id r) r m) results []"

text \<open>
  The loop \<open>for doc_id in all_ids\<close>. The divisions come first: \<open>1 / (k + rank)\<close> raises
  ZeroDivisionError when \<open>k + rank = 0\<close>.
\<close>

fun rrf_loop ::
  "(int \<times> int) list \<Rightarrow> (int \<times> int) list \<Rightarrow> (int \<times> search_result) list \<Rightarrow> int \<Rightarrow> int \<Rightarrow> real \<Rightarrow> real \<Rightarrow>
   int list \<Rightarrow> py_error + hybrid_result list" where
  "rrf_loop bm25_ranks vec_ranks lookup default_rank k bm25_weight vec_weight [] = Inr []"
| "rrf_loop bm25_ranks vec_ranks lookup default_rank k bm25_weight vec_weight (i # rest) =
     (let b = (case map_of bm25_ranks i of None \<Rightarrow> default_rank | Some r \<Rightarrow> r);
          v = (case map_of vec_ranks i of None \<Rightarrow> default_rank | Some r \<Rightarrow> r)
      in if k + b = 0 \<or> k + v = 0 then Inl ZeroDivisionError
         else (case map_of lookup i of
                 None \<Rightarrow> Inl KeyError
               | Some r \<Rightarrow>
                  (case rrf_loop bm25_ranks vec_ranks lookup default_rank k bm25_weight vec_weight rest of
                     Inl e \<Rightarrow> Inl e
                   | Inr rs \<Rightarrow>
                       Inr (\<lparr>r_id = r_id r, r_source = r_source r, r_chunk_index = r_chunk_index r,
                             r_content = r_content r, r_metadata = r_metadata r,
                             r_score = r_score r, r_distance = r_distance r, r_rank = r_rank r,
                             rrf_score = bm25_weight * (1 / real_of_int (k + b))
                                         + vec_weight * (1 / real_of_int (k + v)),
                             bm25_rank = map_of bm25_ranks i, vec_rank = map_of vec_ranks i\<rparr> # rs))))"

text \<open>The list \<open>rrf_results\<close> as it stands before the sort.\<close>

definition rrf_results ::
  "(int set \<Rightarrow> int list) \<Rightarrow> search_result list \<Rightarrow> search_result list \<Rightarrow> int \<Rightarrow> int \<Rightarrow> real \<Rightarrow> real \<Rightarrow>
   py_error + hybrid_result list" where
  "rrf_results iter bm25_results vec_results fetch_limit k bm25_weight vec_weight =
     (let bm25_ranks = rank_map bm25_results;
          vec_ranks = rank_map vec_results;
          all_ids = iter (set (map fst bm25_ranks) \<union> set (map fst vec_ranks));
          lookup = result_lookup (bm25_results @ vec_results);
          default_rank = fetch_limit + 1
      in rrf_loop bm25_ranks vec_ranks lookup default_rank k bm25_weight vec_weight all_ids)"

text \<open>\<open>for i, r in enumerate(results[:limit], 1): r["rank"] = i\<close>, then \<open>results[:limit]\<close>.\<close>

definition assign_ranks :: "int \<Rightarrow> ('a search_result_scheme) list \<Rightarrow> ('a search_result_scheme) list" where
  "assign_ranks limit results = map (\<lambda>(i, r). r\<lparr>r_rank := i\<rparr>) (py_enumerate 1 (py_slice_to limit results))"

definition search_hybrid ::
  "(int set \<Rightarrow> int list) \<Rightarrow> (string \<Rightarrow> db_error + (doc_row \<times> real) list) \<Rightarrow>
   (real list \<Rightarrow> int \<Rightarrow> (doc_row \<times> real) list) \<Rightarrow>
   string \<Rightarrow> real list \<Rightarrow> int \<Rightarrow> int \<Rightarrow> real \<Rightarrow> real \<Rightarrow> py_error + hybrid_result list" where
  "search_hybrid iter fts knn query embedding limit k bm25_weight vec_weight =
     (let fetch_limit = limit * 3
      in case search_bm25 fts query fetch_limit of
           Inl e \<Rightarrow> Inl e
         | Inr bm25_results \<Rightarrow>
            (case search_vector knn embedding fetch_limit of
               Inl e \<Rightarrow> Inl e
             | Inr vec_results \<Rightarrow>
                 (case rrf_results iter bm25_results vec_results fetch_limit k bm25_weight vec_weight of
                    Inl e \<Rightarrow> Inl e
                  | Inr rs \<Rightarrow> Inr (assign_ranks limit (py_sort_desc rrf_score rs)))))"

text \<open>
  \<open>search_hybrid_reranked\<close>. The reranker is the parameter \<open>rerank\<close> (one score per
  document is what \<open>Reranker.rerank\<close> returns); the second component of the result is the
  list of calls made to it. \<open>zip\<close> attaches scores to as many candidates as there are
  scores; a candidate left without \<open>rerank_score\<close> makes the sort key raise KeyError.
\<close>

definition attach_scores :: "hybrid_result list \<Rightarrow> real list \<Rightarrow> reranked_result list" where
  "attach_scores candidates scores =
     map (\<lambda>(c, s). \<lparr>r_id = r_id c, r_source = r_source c, r_chunk_index = r_chunk_index c,
                    r_content = r_content c, r_metadata = r_metadata c,
                    r_score = r_score c, r_distance = r_distance c, r_rank = r_rank c,
                    rrf_score = rrf_score c, bm25_rank = bm25_rank c, vec_rank = vec_rank c,
                    rerank_score = s\<rparr>)
         (zip candidates scores)"

definition search_hybrid_reranked ::
  "(int set \<Rightarrow> int list) \<Rightarrow> (string \<Rightarrow> db_error + (doc_row \<times> real) list) \<Rightarrow>
   (real list \<Rightarrow> int \<Rightarrow> (doc_row \<times> real) list) \<Rightarrow>
   (string \<Rightarrow> string list \<Rightarrow> real list) \<Rightarrow>
   string \<Rightarrow> real list \<Rightarrow> int \<Rightarrow> int \<Rightarrow> (py_error + reranked_result list) \<times> (string \<times> string list) list" where
  "search_hybrid_reranked iter fts knn rerank query embedding limit rerank_top_k =
     (case search_hybrid iter fts knn query embedding rerank_top_k 60 1 1 of
        Inl e \<Rightarrow> (Inl e, [])
      | Inr candidates \<Rightarrow>
          if candidates = [] then (Inr [], [])
          else
            (let doc_contents = map r_content candidates;
                 rerank_scores = rerank query doc_contents;
                 calls = [(query, doc_contents)]
             in if length rerank_scores < length candidates then (Inl KeyError, calls)
                else (Inr (assign_ranks limit
                             (py_sort_desc rerank_score (attach_scores candidates rerank_scores))),
                      calls)))"

text \<open>
  The rank of an id in a result list as the specification words it: the 1-based
  position of the result with that id, and nothing when the list has none.
\<close>

fun position_from :: "int \<Rightarrow> ('a search_result_scheme) list \<Rightarrow> int \<Rightarrow> int option" where
  "position_from n [] i = None"
| "position_from n (x # xs) i = (if r_id x = i then Some n else position_from (n + 1) xs i)"

definition position_rank :: "('a search_result_scheme) list \<Rightarrow> int \<Rightarrow> int option" where
  "position_rank xs i = position_from 1 xs i"

text \<open>
  What the specification says of one fused result: its \<open>bm25_rank\<close> and \<open>vec_rank\<close>
  fields are the ranks of its id in the two lists (null when missing), and its score
  is the weighted sum of the reciprocals, a missing rank counting as the sentinel
  \<open>fetch_limit + 1\<close>.
\<close>

definition rrf_entry_ok ::
  "search_result list \<Rightarrow> search_result list \<Rightarrow> int \<Rightarrow> int \<Rightarrow> real \<Rightarrow> real \<Rightarrow> hybrid_result \<Rightarrow> bool" where
  "rrf_entry_ok bm25_results vec_results fetch_limit k bm25_weight vec_weight r \<longleftrightarrow>
     bm25_rank r = position_rank bm25_results (r_id r) \<and>
     vec_rank r = position_rank vec_results (r_id r) \<and>
     rrf_score r =
       bm25_weight * (1 / real_of_int (k + (case bm25_rank r of None \<Rightarrow> fetch_limit + 1 | Some n \<Rightarrow> n)))
       + vec_weight * (1 / real_of_int (k + (case vec_rank r of None \<Rightarrow> fetch_limit + 1 | Some n \<Rightarrow> n)))"

text \<open>
  The order the specification asks of the fused list: by score descending, ties by
  smaller \<open>bm25_rank\<close>, then smaller \<open>vec_rank\<close>, then smaller id. A missing rank counts
  as the sentinel.
\<close>

definition spec_before :: "int \<Rightarrow> hybrid_result \<Rightarrow> hybrid_result \<Rightarrow> bool" where
  "spec_before sentinel a b \<longleftrightarrow>
     (let ba = (case bm25_rank a of None \<Rightarrow> sentinel | Some n \<Rightarrow> n);
          bb = (case bm25_rank b of None \<Rightarrow> sentinel | Some n \<Rightarrow> n);
          va = (case vec_rank a of None \<Rightarrow> sentinel | Some n \<Rightarrow> n);
          vb = (case vec_rank b of None \<Rightarrow> sentinel | Some n \<Rightarrow> n)
      in rrf_score b < rrf_score a \<or>
         (rrf_score a = rrf_score b \<and>
            (ba < bb \<or> (ba = bb \<and> (va < vb \<or> (va = vb \<and> r_id a \<le> r_id b))))))"

text \<open>Two chunk records and a query vector of the declared width, for concrete runs.\<close>

definition doc_fox :: doc_row where
  "doc_fox = \<lparr>doc_id = 5, source = ''a.md'', chunk_index = 0, content = ''quick fox'',
              metadata = ''{}''\<rparr>"

definition doc_dog :: doc_row where
  "doc_dog = \<lparr>doc_id = 3, source = ''b.md'', chunk_index = 0, content = ''lazy dog'',
              metadata = ''{}''\<rparr>"

definition zero_vec :: "real list" where
  "zero_vec = replicate 768 0"

text \<open>
  A storage engine that holds the two records. On the lexical path it raises the
  syntax error of FTS5 for the query \<^verbatim>\<open>what?\<close> and for the empty query, and answers
  every other query with \<open>doc_fox\<close> before \<open>doc_dog\<close>; among the nearest neighbours \<open>doc_dog\<close> comes before
  \<open>doc_fox\<close>. CPython keeps a small integer of a set in the slot of its value and walks
  the slots upwards, so it enumerates a set of the ids 3 and 5 as 3, 5: \<open>example_iter\<close>.
  The second engine and enumeration are the first ones with the two records exchanged.
\<close>

definition example_fts :: "string \<Rightarrow> db_error + (doc_row \<times> real) list" where
  "example_fts q = (if q = ''what?'' \<or> q = [] then Inl Fts5SyntaxError else Inr [(doc_fox, - 2), (doc_dog, - 1)])"

definition example_knn :: "real list \<Rightarrow> int \<Rightarrow> (doc_row \<times> real) list" where
  "example_knn v n = take (nat n) [(doc_dog, 1 / 4), (doc_fox, 1 / 2)]"

definition example_iter :: "int set \<Rightarrow> int list" where
  "example_iter S = filter (\<lambda>i. i \<in> S) [3, 5]"

definition swapped_fts :: "string \<Rightarrow> db_error + (doc_row \<times> real) list" where
  "swapped_fts q = (if q = ''what?'' \<or> q = [] then Inl Fts5SyntaxError else Inr [(doc_dog, - 2), (doc_fox, - 1)])"

definition swapped_knn :: "real list \<Rightarrow> int \<Rightarrow> (doc_row \<times> real) list" where
  "swapped_knn v n = take (nat n) [(doc_fox, 1 / 4), (doc_dog, 1 / 2)]"

definition swapped_iter :: "int set \<Rightarrow> int list" where
  "swapped_iter S = filter (\<lambda>i. i \<in> S) [5, 3]"

text \<open>A reranker that gives every document the same score.\<close>

definition example_rerank :: "string \<Rightarrow> string list \<Rightarrow> real list" where
  "example_rerank q ds = map (\<lambda>d. 1) ds"

section \<open>The model manager (daemon.py, class ModelManager)\<close>

text \<open>
  Time is a real number; every operation that reads the clock takes the instant \<open>now\<close>
  as an argument. The ordered dictionary \<open>_models\<close> is an association list in
  dictionary order (least recently used first), the configuration \<open>config.models\<close> and
  the dictionary \<open>_unload_tasks\<close> are maps. The resident memory that psutil measures is
  the parameter \<open>usage\<close>, a function of the slots that are loaded. Whether the model
  library can construct a model of a given name is the parameter \<open>available\<close>.

  Coroutines of the manager run without interleaving between two awaits of the event
  loop; a pending idle-unload task is a record in \<open>unload_tasks\<close>, and the body it runs
  after its sleep is the operation \<open>delayed_unload\<close>, applied at the instant it wakes.
  A call of \<open>load_model\<close> is one step: no other coroutine of the manager is taken to run
  while the model is constructed in the executor.
\<close>

datatype model_instance = TextEmbedding string | CrossEncoder string

datatype load_error = ValueError string | LoadFailed string

record model_config =
  model_name :: string
  keep_loaded :: string
  idle_timeout_seconds :: int

record loaded_model =
  slot :: string
  model_handle :: model_instance
  loaded_at :: real
  last_used :: real
  memory_mb :: real

text \<open>
  A task created by \<open>_schedule_unload\<close>: the timeout it captured, the instant its sleep
  began, and whether its body has run. A cancelled task is one that is no longer in
  the dictionary.
\<close>

record unload_task =
  task_timeout :: int
  task_started :: real
  task_finished :: bool

record manager =
  models_config :: "string \<rightharpoonup> model_config"
  max_ram_mb :: int
  models :: "(string \<times> loaded_model) list"
  unload_tasks :: "string \<rightharpoonup> unload_task"

definition estimate_model_memory :: "string \<Rightarrow> real" where
  "estimate_model_memory s =
     (if s = ''embedder'' then 450 else if s = ''reranker'' then 90
      else if s = ''summarizer'' then 4000 else 500)"

definition is_loaded :: "manager \<Rightarrow> string \<Rightarrow> bool" where
  "is_loaded st s \<longleftrightarrow> s \<in> set (map fst (models st))"

definition get_memory_usage :: "(string list \<Rightarrow> real) \<Rightarrow> manager \<Rightarrow> real" where
  "get_memory_usage usage st = usage (map fst (models st))"

definition load_model_sync :: "(string \<Rightarrow> bool) \<Rightarrow> manager \<Rightarrow> string \<Rightarrow> load_error + model_instance" where
  "load_model_sync available st s =
     (case models_config st s of
        None \<Rightarrow> Inl (ValueError (''Unknown model slot: '' @ s))
      | Some mc \<Rightarrow>
          if s = ''embedder'' then
            (if available (model_name mc) then Inr (TextEmbedding (model_name mc))
             else Inl (LoadFailed (model_name mc)))
          else if s = ''reranker'' then
            (if available (model_name mc) then Inr (CrossEncoder (model_name mc))
             else Inl (LoadFailed (model_name mc)))
          else Inl (ValueError (''Unknown model slot: '' @ s)))"

text \<open>\<open>model_config and model_config.keep_loaded == "always"\<close>\<close>

definition pinned :: "manager \<Rightarrow> string \<Rightarrow> bool" where
  "pinned st s = (case models_config st s of None \<Rightarrow> False | Some mc \<Rightarrow> keep_loaded mc = ''always'')"

definition unload_model :: "manager \<Rightarrow> string \<Rightarrow> manager" where
  "unload_model st s =
     (if \<not> is_loaded st s then st
      else if pinned st s then st
      else st\<lparr>models := AList.delete s (models st)\<rparr>)"

text \<open>
  The search for the eviction candidate: the first slot in dictionary order whose
  configuration exists and is not \<open>always\<close>.
\<close>

definition evictable :: "manager \<Rightarrow> string \<Rightarrow> bool" where
  "evictable st s = (case models_config st s of None \<Rightarrow> False | Some mc \<Rightarrow> keep_loaded mc \<noteq> ''always'')"

definition evict_slot :: "manager \<Rightarrow> string option" where
  "evict_slot st = find (evictable st) (map fst (models st))"

function ensure_memory_budget :: "(string list \<Rightarrow> real) \<Rightarrow> manager \<Rightarrow> string \<Rightarrow> manager" where
  "ensure_memory_budget usage st s =
     (if get_memory_usage usage st + estimate_model_memory s > real_of_int (max_ram_mb st)
         \<and> models st \<noteq> []
      then (case evict_slot st of
              None \<Rightarrow> st
            | Some e \<Rightarrow> ensure_memory_budget usage (unload_model st e) s)
      else st)"
  by pat_completeness auto

text \<open>
  The loop ends: the candidate it finds is loaded and not pinned, so \<open>unload_model\<close>
  removes it and the dictionary shrinks.
\<close>

lemma evict_slot_Some: "evict_slot st = Some e \<Longrightarrow> is_loaded st e \<and> evictable st e"
  by (auto simp: evict_slot_def is_loaded_def find_Some_iff)

lemma evictable_not_pinned: "evictable st e \<Longrightarrow> \<not> pinned st e"
  by (simp add: evictable_def pinned_def split: option.splits)

lemma length_delete_less: "k \<in> set (map fst ms) \<Longrightarrow> length (AList.delete k ms) < length ms"
proof (induction ms)
  case Nil
  then show ?case by simp
next
  case (Cons a ms)
  show ?case
  proof (cases "fst a = k")
    case True
    have "length (AList.delete k ms) \<le> length ms" by (rule length_delete_le)
    with True show ?thesis by (cases a) simp
  next
    case False
    with Cons.prems have "k \<in> set (map fst ms)" by auto
    then have "length (AList.delete k ms) < length ms" by (rule Cons.IH)
    with False show ?thesis by (cases a) simp
  qed
qed

lemma unload_model_evict_slot:
  "evict_slot st = Some e \<Longrightarrow> unload_model st e = st\<lparr>models := AList.delete e (models st)\<rparr>"
  by (auto simp: unload_model_def dest!: evict_slot_Some dest: evictable_not_pinned)

lemma unload_model_shrinks:
  "evict_slot st = Some e \<Longrightarrow> length (models (unload_model st e)) < length (models st)"
  by (auto simp: unload_model_evict_slot is_loaded_def dest!: evict_slot_Some intro: length_delete_less)

termination ensure_memory_budget
  by (relation "measure (\<lambda>(usage, st, s). length (models st))") (auto intro: unload_model_shrinks)

declare ensure_memory_budget.simps [simp del]

definition schedule_unload :: "manager \<Rightarrow> string \<Rightarrow> real \<Rightarrow> manager" where
  "schedule_unload st s now =
     (case models_config st s of
        None \<Rightarrow> st
      | Some mc \<Rightarrow>
          if keep_loaded mc \<noteq> ''on_demand'' then st
          else if idle_timeout_seconds mc \<le> 0 then st
          else st\<lparr>unload_tasks := (unload_tasks st)(s \<mapsto>
                 \<lparr>task_timeout = idle_timeout_seconds mc, task_started = now,
                  task_finished = False\<rparr>)\<rparr>)"

text \<open>
  The body of \<open>_delayed_unload\<close> after its sleep, for the task armed with \<open>timeout\<close>
  for the slot \<open>s\<close>, run at the instant \<open>now\<close>.
\<close>

definition delayed_unload :: "manager \<Rightarrow> string \<Rightarrow> int \<Rightarrow> real \<Rightarrow> manager" where
  "delayed_unload st s timeout now =
     (case map_of (models st) s of
        None \<Rightarrow> st
      | Some m \<Rightarrow> if now - last_used m \<ge> real_of_int timeout then unload_model st s else st)"

text \<open>
  The event loop resumes the task of slot \<open>s\<close> at the instant \<open>now\<close>. A task that is not
  in the dictionary (never armed, or cancelled), that has run, or whose sleep is not
  over does nothing.
\<close>

definition wake_unload_task :: "manager \<Rightarrow> string \<Rightarrow> real \<Rightarrow> manager" where
  "wake_unload_task st s now =
     (case unload_tasks st s of
        None \<Rightarrow> st
      | Some t \<Rightarrow>
          if task_finished t \<or> now < task_started t + real_of_int (task_timeout t) then st
          else (delayed_unload st s (task_timeout t) now)
                 \<lparr>unload_tasks := (unload_tasks st)(s \<mapsto> t\<lparr>task_finished := True\<rparr>)\<rparr>)"

text \<open>\<open>_models.move_to_end(slot)\<close> after \<open>model.touch()\<close>\<close>

definition touch_and_move_to_end :: "(string \<times> loaded_model) list \<Rightarrow> string \<Rightarrow> real \<Rightarrow> (string \<times> loaded_model) list" where
  "touch_and_move_to_end ms s now =
     (case map_of ms s of
        None \<Rightarrow> ms
      | Some m \<Rightarrow> AList.delete s ms @ [(s, m\<lparr>last_used := now\<rparr>)])"

definition load_model ::
  "(string list \<Rightarrow> real) \<Rightarrow> (string \<Rightarrow> bool) \<Rightarrow> manager \<Rightarrow> string \<Rightarrow> real \<Rightarrow> (load_error + loaded_model) \<times> manager" where
  "load_model usage available st s now =
     (case map_of (models st) s of
        Some m \<Rightarrow>
          (Inr (m\<lparr>last_used := now\<rparr>), st\<lparr>models := touch_and_move_to_end (models st) s now\<rparr>)
      | None \<Rightarrow>
          (let st1 = st\<lparr>unload_tasks := (unload_tasks st)(s := None)\<rparr>;
               st2 = ensure_memory_budget usage st1 s
           in case load_model_sync available st2 s of
                Inl e \<Rightarrow> (Inl e, st2)
              | Inr inst \<Rightarrow>
                  (let m = \<lparr>slot = s, model_handle = inst, loaded_at = now, last_used = now,
                            memory_mb = estimate_model_memory s\<rparr>;
                       st3 = st2\<lparr>models := models st2 @ [(s, m)]\<rparr>
                   in (Inr m, schedule_unload st3 s now))))"

text \<open>\<open>get_status\<close>: the entries of \<open>loaded_models\<close>, and the two memory figures.\<close>

record model_status =
  st_loaded_at :: real
  st_last_used :: real
  st_memory_mb :: real
  idle_seconds :: real

record status =
  loaded_models :: "(string \<times> model_status) list"
  total_memory_mb :: real
  max_memory_mb :: int

definition get_status :: "(string list \<Rightarrow> real) \<Rightarrow> manager \<Rightarrow> real \<Rightarrow> status" where
  "get_status usage st now =
     \<lparr>loaded_models =
        map (\<lambda>(s, m). (s, \<lparr>st_loaded_at = loaded_at m, st_last_used = last_used m,
                            st_memory_mb = memory_mb m, idle_seconds = now - last_used m\<rparr>))
            (models st),
      total_memory_mb = get_memory_usage usage st,
      max_memory_mb = max_ram_mb st\<rparr>"

text \<open>
  What the specification calls evicting the least recently used non-pinned slot once:
  the first evictable entry of the ordered map is removed.
\<close>

definition evict_lru :: "manager \<Rightarrow> manager" where
  "evict_lru st = (case evict_slot st of None \<Rightarrow> st | Some e \<Rightarrow> st\<lparr>models := AList.delete e (models st)\<rparr>)"

text \<open>The budget does not fit the slot \<open>s\<close>.\<close>

definition over_budget :: "(string list \<Rightarrow> real) \<Rightarrow> manager \<Rightarrow> string \<Rightarrow> bool" where
  "over_budget usage st s \<longleftrightarrow>
     get_memory_usage usage st + estimate_model_memory s > real_of_int (max_ram_mb st)"

text \<open>
  A configuration for concrete runs: the embedder pinned, the reranker on demand with
  an idle timeout of 300 seconds, and a budget of 500 MB; a process whose resident
  memory is the sum of the estimates of the loaded slots.
\<close>

definition example_config :: "string \<rightharpoonup> model_config" where
  "example_config =
     [''embedder'' \<mapsto> \<lparr>model_name = ''BAAI/bge-base-en-v1.5'', keep_loaded = ''always'',
                        idle_timeout_seconds = 0\<rparr>,
      ''reranker'' \<mapsto> \<lparr>model_name = ''cross-encoder/ms-marco-MiniLM-L-6-v2'',
                        keep_loaded = ''on_demand'', idle_timeout_seconds = 300\<rparr>]"

definition example_manager :: manager where
  "example_manager = \<lparr>models_config = example_config, max_ram_mb = 500, models = [],
                       unload_tasks = Map.empty\<rparr>"

definition example_usage :: "string list \<Rightarrow> real" where
  "example_usage ss = sum_list (map estimate_model_memory ss)"

text \<open>
  A second configuration: both slots on demand, and a budget of 100 MB, which holds
  neither of them.
\<close>

definition small_config :: "string \<rightharpoonup> model_config" where
  "small_config =
     [''embedder'' \<mapsto> \<lparr>model_name = ''BAAI/bge-base-en-v1.5'', keep_loaded = ''on_demand'',
                        idle_timeout_seconds = 0\<rparr>,
      ''reranker'' \<mapsto> \<lparr>model_name = ''cross-encoder/ms-marco-MiniLM-L-6-v2'',
                        keep_loaded = ''on_demand'', idle_timeout_seconds = 300\<rparr>]"

definition small_manager :: manager where
  "small_manager = \<lparr>models_config = small_config, max_ram_mb = 100, models = [],
                     unload_tasks = Map.empty\<rparr>"

text \<open>The model library constructs every model.\<close>

definition all_available :: "string \<Rightarrow> bool" where
  "all_available n = True"

text \<open>The two managers after the embedder has been loaded at the instant 0.\<close>

definition example_loaded :: manager where
  "example_loaded = snd (load_model example_usage all_available example_manager ''embedder'' 0)"

definition small_loaded :: manager where
  "small_loaded = snd (load_model example_usage all_available small_manager ''embedder'' 0)"

text \<open>
  A run of the manager: the calls of \<open>load_model\<close> and \<open>unload_model\<close> that the requests
  make and the wake-ups of the idle tasks, in the order in which the event loop runs
  them, from the manager that \<open>__init__\<close> builds.
\<close>

datatype manager_op = Load string real | Unload string | Wake string real

fun apply_op :: "(string list \<Rightarrow> real) \<Rightarrow> (string \<Rightarrow> bool) \<Rightarrow> manager \<Rightarrow> manager_op \<Rightarrow> manager" where
  "apply_op usage available st (Load s now) = snd (load_model usage available st s now)"
| "apply_op usage available st (Unload s) = unload_model st s"
| "apply_op usage available st (Wake s now) = wake_unload_task st s now"

definition run_ops ::
  "(string list \<Rightarrow> real) \<Rightarrow> (string \<Rightarrow> bool) \<Rightarrow> manager \<Rightarrow> manager_op list \<Rightarrow> manager" where
  "run_ops usage available st ops = foldl (apply_op usage available) st ops"

text \<open>
  When a slot was last used in a run, as the specification understands use: the
  1-based position of the last \<open>load_model\<close> call for the slot, and 0 when the run has
  none. It is a count of calls and does not read the clock.
\<close>

fun loads_slot :: "string \<Rightarrow> manager_op \<Rightarrow> bool" where
  "loads_slot s (Load s' now) = (s' = s)"
| "loads_slot s (Unload s') = False"
| "loads_slot s (Wake s' now) = False"

fun last_use :: "manager_op list \<Rightarrow> string \<Rightarrow> nat" where
  "last_use [] s = 0"
| "last_use (c # ops) s =
     (if last_use ops s \<noteq> 0 then Suc (last_use ops s)
      else if loads_slot s c then 1 else 0)"

text \<open>
  A third configuration: both slots on demand and a budget of 1000 MB, which holds
  both of them but not a further slot of 500 MB. In the run the embedder is loaded,
  then the reranker, then the embedder is used again.
\<close>

definition roomy_manager :: manager where
  "roomy_manager = \<lparr>models_config = small_config, max_ram_mb = 1000, models = [],
                     unload_tasks = Map.empty\<rparr>"

definition roomy_ops :: "manager_op list" where
  "roomy_ops = [Load ''embedder'' 0, Load ''reranker'' 10, Load ''embedder'' 20]"

section \<open>The request dispatcher (daemon.py, class FastSearchDaemon)\<close>

text \<open>
  The payload of a frame is a list of bytes. The values that \<open>json.loads\<close> returns and
  \<open>json.dumps\<close> accepts are the type \<open>json\<close>; a Python dictionary with string keys is an
  association list, looked up by its first entry for a key.
\<close>

type_synonym byte = "8 word"

datatype json =
    JNull
  | JBool bool
  | JInt int
  | JFloat real
  | JStr string
  | JArr "json list"
  | JObj "(string \<times> json) list"

text \<open>
  The exceptions of a request. \<open>PyException\<close> is any other instance of \<open>Exception\<close>, with
  its \<open>str\<close>; \<open>PyBaseException\<close> is an exception that is not an instance of \<open>Exception\<close>
  (a cancellation, an interrupt).
\<close>

datatype exn =
    PyUnicodeDecodeError
  | PyJSONDecodeError string
  | PyRecursionError
  | PyAttributeError string
  | PyTypeError string
  | PyValueError string
  | PyException string
  | PyBaseException string

text \<open>\<open>isinstance(e, json.JSONDecodeError)\<close> and \<open>isinstance(e, Exception)\<close>\<close>

fun is_JSONDecodeError :: "exn \<Rightarrow> bool" where
  "is_JSONDecodeError (PyJSONDecodeError m) = True"
| "is_JSONDecodeError e = False"

fun is_Exception :: "exn \<Rightarrow> bool" where
  "is_Exception (PyBaseException m) = False"
| "is_Exception e = True"

text \<open>\<open>str(e)\<close>\<close>

fun exn_str :: "exn \<Rightarrow> string" where
  "exn_str PyUnicodeDecodeError = ''invalid start byte''"
| "exn_str (PyJSONDecodeError m) = m"
| "exn_str PyRecursionError = ''maximum recursion depth exceeded''"
| "exn_str (PyAttributeError m) = m"
| "exn_str (PyTypeError m) = m"
| "exn_str (PyValueError m) = m"
| "exn_str (PyException m) = m"
| "exn_str (PyBaseException m) = m"

text \<open>
  \<open>data.decode()\<close>: the strict UTF-8 codec. It raises \<open>UnicodeDecodeError\<close> on a byte
  sequence that is not well-formed UTF-8: a lead byte out of \<open>00..7F\<close> and \<open>C2..F4\<close>, a
  missing or wrong continuation byte, an overlong form, a surrogate, or a code point
  above \<open>10FFFF\<close>. The text it returns otherwise is represented by the bytes themselves.
\<close>

definition continuation :: "byte \<Rightarrow> bool" where
  "continuation b \<longleftrightarrow> 0x80 \<le> b \<and> b \<le> 0xBF"

fun utf8_valid :: "byte list \<Rightarrow> bool" where
  "utf8_valid [] = True"
| "utf8_valid [b] = (b < 0x80)"
| "utf8_valid [b, c1] =
     (if b < 0x80 then utf8_valid [c1]
      else 0xC2 \<le> b \<and> b \<le> 0xDF \<and> continuation c1)"
| "utf8_valid [b, c1, c2] =
     (if b < 0x80 then utf8_valid [c1, c2]
      else if 0xC2 \<le> b \<and> b \<le> 0xDF then continuation c1 \<and> utf8_valid [c2]
      else 0xE0 \<le> b \<and> b \<le> 0xEF \<and>
           (if b = 0xE0 then 0xA0 \<le> c1 \<and> c1 \<le> 0xBF
            else if b = 0xED then 0x80 \<le> c1 \<and> c1 \<le> 0x9F
            else continuation c1) \<and>
           continuation c2)"
| "utf8_valid (b # c1 # c2 # c3 # r) =
     (if b < 0x80 then utf8_valid (c1 # c2 # c3 # r)
      else if 0xC2 \<le> b \<and> b \<le> 0xDF then continuation c1 \<and> utf8_valid (c2 # c3 # r)
      else if 0xE0 \<le> b \<and> b \<le> 0xEF then
        (if b = 0xE0 then 0xA0 \<le> c1 \<and> c1 \<le> 0xBF
         else if b = 0xED then 0x80 \<le> c1 \<and> c1 \<le> 0x9F
         else continuation c1) \<and>
        continuation c2 \<and> utf8_valid (c3 # r)
      else 0xF0 \<le> b \<and> b \<le> 0xF4 \<and>
        (if b = 0xF0 then 0x90 \<le> c1 \<and> c1 \<le> 0xBF
         else if b = 0xF4 then 0x80 \<le> c1 \<and> c1 \<le> 0x8F
         else continuation c1) \<and>
        continuation c2 \<and> continuation c3 \<and> utf8_valid r)"

text \<open>\<open>d.get(key, default)\<close> on a dictionary.\<close>

definition dict_get :: "(string \<times> json) list \<Rightarrow> string \<Rightarrow> json \<Rightarrow> json" where
  "dict_get d k dflt = (case map_of d k of None \<Rightarrow> dflt | Some v \<Rightarrow> v)"

text \<open>The name of the Python type of a value, and a text between single quotes.\<close>

fun type_name :: "json \<Rightarrow> string" where
  "type_name JNull = ''NoneType''"
| "type_name (JBool b) = ''bool''"
| "type_name (JInt i) = ''int''"
| "type_name (JFloat r) = ''float''"
| "type_name (JStr s) = ''str''"
| "type_name (JArr xs) = ''list''"
| "type_name (JObj d) = ''dict''"

definition quoted :: "string \<Rightarrow> string" where
  "quoted s = [CHR 0x27] @ s @ [CHR 0x27]"

text \<open>
  \<open>x.get(key, default)\<close> on any value: only a dictionary has the method \<open>get\<close>.
\<close>

fun py_get :: "json \<Rightarrow> string \<Rightarrow> json \<Rightarrow> exn + json" where
  "py_get (JObj d) k dflt = Inr (dict_get d k dflt)"
| "py_get x k dflt =
     Inl (PyAttributeError (quoted (type_name x) @ '' object has no attribute '' @ quoted ''get''))"

text \<open>\<open>not x\<close> is \<open>\<not> py_truthy x\<close>.\<close>

fun py_truthy :: "json \<Rightarrow> bool" where
  "py_truthy JNull = False"
| "py_truthy (JBool b) = b"
| "py_truthy (JInt i) = (i \<noteq> 0)"
| "py_truthy (JFloat r) = (r \<noteq> 0)"
| "py_truthy (JStr s) = (s \<noteq> [])"
| "py_truthy (JArr xs) = (xs \<noteq> [])"
| "py_truthy (JObj d) = (d \<noteq> [])"

text \<open>A list or a dictionary has no hash, so it cannot be looked up in a dictionary.\<close>

fun hashable :: "json \<Rightarrow> bool" where
  "hashable (JArr xs) = False"
| "hashable (JObj d) = False"
| "hashable x = True"

text \<open>The keys of the handler registry \<open>_handlers\<close>.\<close>

definition handler_names :: "string list" where
  "handler_names = [''ping'', ''status'', ''search'', ''embed'', ''rerank'', ''load_model'',
                    ''unload_model'', ''reload_config'', ''shutdown'']"

text \<open>\<open>method in self._handlers\<close>, for a method that has a hash.\<close>

fun in_handlers :: "json \<Rightarrow> bool" where
  "in_handlers (JStr m) = (m \<in> set handler_names)"
| "in_handlers x = False"

fun method_name :: "json \<Rightarrow> string" where
  "method_name (JStr m) = m"
| "method_name x = []"

text \<open>
  The message of an error response: \<open>f"Parse error: {e}"\<close>, \<open>f"Method not found: {method}"\<close>,
  or a given string.
\<close>

datatype message = ParseError string | MethodNotFound json | Message string

text \<open>
  The dictionary that is serialised as the response: \<open>result\<close> and \<open>id\<close>, or the \<open>code\<close> and
  \<open>message\<close> of \<open>error\<close> and \<open>id\<close>.
\<close>

datatype response = Result json json | Error int message json

text \<open>
  The state of the daemon: the counter of requests, and everything else the handlers
  read and change (the model manager, the configuration, the shutdown event).
\<close>

record 'h daemon =
  request_count :: nat
  services :: 'h

type_synonym 'h handler = "json \<Rightarrow> 'h daemon \<Rightarrow> (exn + json) \<times> 'h daemon"

text \<open>
  \<open>_handle_embed\<close>. What follows its check of \<open>texts\<close> (loading the embedder and running
  it) is the parameter \<open>embed_texts\<close>.
\<close>

definition handle_embed :: "'h handler \<Rightarrow> 'h handler" where
  "handle_embed embed_texts params st =
     (case py_get params ''texts'' (JArr []) of
        Inl e \<Rightarrow> (Inl e, st)
      | Inr texts \<Rightarrow>
          if \<not> py_truthy texts
          then (Inl (PyValueError ''Missing 'texts' parameter''), st)
          else embed_texts texts st)"

text \<open>
  \<open>self._handlers[method](params)\<close>: the handlers other than \<open>embed\<close> are the parameter
  \<open>others\<close>, by name. A result that \<open>json.dumps\<close> refuses is an exception of the handler.
\<close>

definition call_handler :: "'h handler \<Rightarrow> (string \<Rightarrow> 'h handler) \<Rightarrow> string \<Rightarrow> 'h handler" where
  "call_handler embed_texts others m params st =
     (if m = ''embed'' then handle_embed embed_texts params st else others m params st)"

text \<open>
  \<open>_handle_request\<close>. The parser \<open>json.loads\<close> is the parameter \<open>loads\<close>, applied to the
  text that the payload encodes; it returns a value or raises. The result is the
  response, or the exception that leaves the function.
\<close>

definition handle_request ::
  "(byte list \<Rightarrow> exn + json) \<Rightarrow> 'h handler \<Rightarrow> (string \<Rightarrow> 'h handler) \<Rightarrow> 'h daemon \<Rightarrow> byte list
     \<Rightarrow> (exn + response) \<times> 'h daemon" where
  "handle_request loads embed_texts others st data =
     (if \<not> utf8_valid data then (Inl PyUnicodeDecodeError, st)
      else case loads data of
        Inl e \<Rightarrow>
          if is_JSONDecodeError e then (Inr (Error (- 32700) (ParseError (exn_str e)) JNull), st)
          else (Inl e, st)
      | Inr request \<Rightarrow>
          (case py_get request ''id'' JNull of
             Inl e \<Rightarrow> (Inl e, st)
           | Inr request_id \<Rightarrow>
          (case py_get request ''method'' JNull of
             Inl e \<Rightarrow> (Inl e, st)
           | Inr method \<Rightarrow>
          (case py_get request ''params'' (JObj []) of
             Inl e \<Rightarrow> (Inl e, st)
           | Inr params \<Rightarrow>
               (let st1 = st\<lparr>request_count := request_count st + 1\<rparr> in
                if \<not> hashable method then
                  (Inl (PyTypeError (''unhashable type: '' @ quoted (type_name method))), st1)
                else if \<not> in_handlers method then
                  (Inr (Error (- 32601) (MethodNotFound method) request_id), st1)
                else
                  (case call_handler embed_texts others (method_name method) params st1 of
                     (Inr result, st2) \<Rightarrow> (Inr (Result result request_id), st2)
                   | (Inl e, st2) \<Rightarrow>
                       if is_Exception e
                       then (Inr (Error (- 32000) (Message (exn_str e)) request_id), st2)
                       else (Inl e, st2)))))))"

text \<open>
  One round of the loop of \<open>_handle_client\<close> on a frame whose payload has been read: the
  response is written and the connection stays open, or the exception ends the loop
  and the connection is closed with nothing written.
\<close>

datatype connection = Responded response | Closed

definition serve_frame ::
  "(byte list \<Rightarrow> exn + json) \<Rightarrow> 'h handler \<Rightarrow> (string \<Rightarrow> 'h handler) \<Rightarrow> 'h daemon \<Rightarrow> byte list
     \<Rightarrow> connection \<times> 'h daemon" where
  "serve_frame loads embed_texts others st data =
     (case handle_request loads embed_texts others st data of
        (Inr r, st') \<Rightarrow> (Responded r, st')
      | (Inl e, st') \<Rightarrow> (Closed, st'))"






section \<open>Properties of the index store\<close>

lemma fold_max_ge_init: "(a::int) \<le> fold max xs a"
  by (induction xs arbitrary: a) (auto intro: order_trans [OF max.cobounded2])

lemma fold_max_ge_elem: "x \<in> set xs \<Longrightarrow> (x::int) \<le> fold max xs a"
proof (induction xs arbitrary: a)
  case Nil
  then show ?case by simp
next
  case (Cons y ys)
  show ?case
  proof (cases "x = y")
    case True
    have "max y a \<le> fold max ys (max y a)" by (rule fold_max_ge_init)
    with True show ?thesis by simp
  next
    case False
    with Cons show ?thesis by simp
  qed
qed

lemma next_rowid_fresh: "next_rowid ds \<notin> set (map doc_id ds)"
proof
  assume mem: "next_rowid ds \<in> set (map doc_id ds)"
  then obtain d ds' where ds: "ds = d # ds'" by (cases ds) auto
  let ?m = "fold max (map doc_id ds') (doc_id d)"
  have "\<forall>x \<in> set (map doc_id ds). x \<le> ?m"
    using fold_max_ge_init [of "doc_id d" "map doc_id ds'"]
          fold_max_ge_elem [of _ "map doc_id ds'" "doc_id d"]
    by (auto simp: ds)
  with mem have "next_rowid ds \<le> ?m" by blast
  then show False by (simp add: next_rowid_def ds)
qed

lemma insert_docs_fst: "fst (insert_docs db src ci c md) = next_rowid (docs db)"
  by (simp add: insert_docs_def Let_def)

lemma insert_docs_tables:
  "docs (snd (insert_docs db src ci c md)) =
     docs db @ [\<lparr>doc_id = next_rowid (docs db), source = src, chunk_index = ci, content = c,
                 metadata = metadata_json md\<rparr>]"
  "docs_fts (snd (insert_docs db src ci c md)) = docs_fts db @ [(next_rowid (docs db), c)]"
  "docs_vec (snd (insert_docs db src ci c md)) = docs_vec db"
  by (simp_all add: insert_docs_def Let_def)

lemma index_document_ok:
  assumes "consistent db" "length emb = DIMENSIONS"
  shows "fst (index_document db src ci c emb md) = Inr (next_rowid (docs db))"
    and "consistent (snd (index_document db src ci c emb md))"
proof -
  obtain i db1 where ins: "insert_docs db src ci c md = (i, db1)" by (cases "insert_docs db src ci c md")
  have i: "i = next_rowid (docs db)" using insert_docs_fst [of db src ci c md] ins by simp
  have t: "docs db1 = docs db @ [\<lparr>doc_id = i, source = src, chunk_index = ci, content = c, metadata = metadata_json md\<rparr>]"
     "docs_fts db1 = docs_fts db @ [(i, c)]" "docs_vec db1 = docs_vec db"
    using insert_docs_tables [of db src ci c md] ins i by simp_all
  have fresh: "i \<notin> set (map doc_id (docs db))" unfolding i by (rule next_rowid_fresh)
  have "set (map fst (docs_vec db)) = set (map doc_id (docs db))"
    using assms(1) unfolding consistent_def by (metis set_mset_mset)
  with fresh have nv: "i \<notin> set (map fst (docs_vec db1))" by (simp add: t)
  have v: "insert_docs_vec db1 i emb = Inr (db1\<lparr>docs_vec := docs_vec db1 @ [(i, emb)]\<rparr>)"
    using nv assms(2) by (simp add: insert_docs_vec_def)
  show "fst (index_document db src ci c emb md) = Inr (next_rowid (docs db))"
    using v by (simp add: index_document_def ins i)
  show "consistent (snd (index_document db src ci c emb md))"
    using assms(1) fresh by (simp add: index_document_def ins v consistent_def t)
qed

lemma index_batch_loop_ok:
  assumes "consistent db" "\<forall>it \<in> set items. length (item_embedding it) = DIMENSIONS"
  shows "\<exists>new db'. index_batch_loop db items ids = (Inr (ids @ new), db') \<and> consistent db' \<and>
           length new = length items \<and>
           docs db' = docs db @ map2 item_row new items \<and>
           docs_fts db' = docs_fts db @ map2 (\<lambda>i it. (i, item_content it)) new items \<and>
           docs_vec db' = docs_vec db @ map2 (\<lambda>i it. (i, item_embedding it)) new items"
  using assms
proof (induction items arbitrary: db ids)
  case Nil
  then show ?case by simp
next
  case (Cons it rest)
  obtain src ci c emb md where it: "it = (src, ci, c, emb, md)" by (cases it)
  from Cons.prems it have len: "length emb = DIMENSIONS" by (simp add: item_embedding_def)
  let ?i = "next_rowid (docs db)"
  let ?r = "index_document db src ci c emb md"
  have f: "fst ?r = Inr ?i" and c2: "consistent (snd ?r)"
    using index_document_ok [OF Cons.prems(1) len] by simp_all
  obtain db1 where ins: "insert_docs db src ci c md = (?i, db1)"
    using insert_docs_fst [of db src ci c md] by (cases "insert_docs db src ci c md") simp
  from f obtain db2 where v: "insert_docs_vec db1 ?i emb = Inr db2"
    by (cases "insert_docs_vec db1 ?i emb") (simp_all add: index_document_def ins)
  have r: "?r = (Inr ?i, db2)" by (simp add: index_document_def ins v)
  with c2 have cdb2: "consistent db2" by simp
  have t1: "docs db1 = docs db @ [item_row ?i it]"
     "docs_fts db1 = docs_fts db @ [(?i, item_content it)]" "docs_vec db1 = docs_vec db"
    using insert_docs_tables [of db src ci c md] ins by (simp_all add: it item_row_def item_content_def)
  have t2: "docs db2 = docs db1" "docs_fts db2 = docs_fts db1"
     "docs_vec db2 = docs_vec db1 @ [(?i, item_embedding it)]"
    using v by (auto simp: insert_docs_vec_def it item_embedding_def split: if_splits)
  from Cons.prems have rest: "\<forall>it \<in> set rest. length (item_embedding it) = DIMENSIONS" by simp
  from Cons.IH [OF cdb2 rest, of "ids @ [?i]"] obtain new db' where
    IH: "index_batch_loop db2 rest (ids @ [?i]) = (Inr ((ids @ [?i]) @ new), db')" "consistent db'"
        "length new = length rest"
        "docs db' = docs db2 @ map2 item_row new rest"
        "docs_fts db' = docs_fts db2 @ map2 (\<lambda>i it. (i, item_content it)) new rest"
        "docs_vec db' = docs_vec db2 @ map2 (\<lambda>i it. (i, item_embedding it)) new rest"
    by blast
  have "index_batch_loop db (it # rest) ids = (Inr (ids @ (?i # new)), db')"
    using IH(1) by (simp add: it ins v)
  then show ?case
    using IH(2-6) by (intro exI [of _ "?i # new"] exI [of _ db']) (simp add: t1 t2)
qed

lemma fold_delete_docs_vec:
  "fold delete_docs_vec ids db = db\<lparr>docs_vec := filter (\<lambda>r. fst r \<notin> set ids) (docs_vec db)\<rparr>"
proof (induction ids arbitrary: db)
  case Nil
  then show ?case by simp
next
  case (Cons i ids)
  have "filter (\<lambda>r. fst r \<notin> set ids) (filter (\<lambda>r. fst r \<noteq> i) (docs_vec db)) =
        filter (\<lambda>r. fst r \<notin> set (i # ids)) (docs_vec db)"
    by (auto intro: filter_cong)
  with Cons show ?case by (simp add: delete_docs_vec_def)
qed

lemma mset_fold_remove1:
  "mset (fold (\<lambda>d f. remove1 (k d) f) ds f) = mset f - mset (map k ds)"
  by (induction ds arbitrary: f) simp_all

lemma mset_map_filter_split:
  "mset (map k xs) = mset (map k (filter P xs)) + mset (map k (filter (\<lambda>x. \<not> P x) xs))"
  by (induction xs) simp_all

lemma mset_map_filter_key:
  "mset (map k (filter (\<lambda>x. k x \<notin> S) xs)) = filter_mset (\<lambda>i. i \<notin> S) (mset (map k xs))"
  by (induction xs) simp_all

lemma delete_source_consistent:
  assumes "consistent db"
  shows "consistent (snd (delete_source db src))"
proof -
  let ?D = "docs db"
  let ?del = "filter (\<lambda>d. source d = src) ?D"
  let ?keep = "filter (\<lambda>d. source d \<noteq> src) ?D"
  let ?ids = "map doc_id ?del"
  let ?db' = "delete_docs src (fold delete_docs_vec ?ids db)"
  from assms have dist: "distinct (map doc_id ?D)"
    and fts: "mset (docs_fts db) = mset (map (\<lambda>d. (doc_id d, content d)) ?D)"
    and vec: "mset (map fst (docs_vec db)) = mset (map doc_id ?D)"
    by (simp_all add: consistent_def)
  have d': "docs ?db' = ?keep"
    by (simp add: delete_docs_def fold_delete_docs_vec)
  have f': "docs_fts ?db' = fold (\<lambda>d f. remove1 (doc_id d, content d) f) ?del (docs_fts db)"
    by (simp add: delete_docs_def fold_delete_docs_vec)
  have v': "docs_vec ?db' = filter (\<lambda>r. fst r \<notin> set ?ids) (docs_vec db)"
    by (simp add: delete_docs_def fold_delete_docs_vec)
  have c1: "distinct (map doc_id ?keep)"
    using dist by (rule distinct_map_filter)
  have "mset (docs_fts ?db') = mset (map (\<lambda>d. (doc_id d, content d)) ?D)
            - mset (map (\<lambda>d. (doc_id d, content d)) ?del)"
    by (simp only: f' mset_fold_remove1 fts)
  also have "\<dots> = mset (map (\<lambda>d. (doc_id d, content d)) ?keep)"
    by (subst mset_map_filter_split [of _ ?D "\<lambda>d. source d = src"]) simp
  finally have c2: "mset (docs_fts ?db') = mset (map (\<lambda>d. (doc_id d, content d)) (docs ?db'))"
    by (simp only: d')
  have inj: "inj_on doc_id (set ?D)" using dist by (simp add: distinct_map)
  have eqv: "doc_id d \<notin> set ?ids \<longleftrightarrow> source d \<noteq> src" if "d \<in> set ?D" for d
  proof
    assume "doc_id d \<notin> set ?ids"
    with that show "source d \<noteq> src" by auto
  next
    assume ne: "source d \<noteq> src"
    show "doc_id d \<notin> set ?ids"
    proof
      assume "doc_id d \<in> set ?ids"
      then obtain e where e: "e \<in> set ?D" "source e = src" "doc_id e = doc_id d" by auto
      with inj that have "e = d" by (auto dest: inj_onD)
      with e ne show False by simp
    qed
  qed
  have "mset (map fst (docs_vec ?db')) = filter_mset (\<lambda>i. i \<notin> set ?ids) (mset (map fst (docs_vec db)))"
    by (simp only: v' mset_map_filter_key)
  also have "\<dots> = mset (map doc_id (filter (\<lambda>d. doc_id d \<notin> set ?ids) ?D))"
    by (simp only: vec mset_map_filter_key)
  also have "filter (\<lambda>d. doc_id d \<notin> set ?ids) ?D = ?keep"
  proof (rule filter_cong)
    fix d assume "d \<in> set ?D"
    then show "(doc_id d \<notin> set ?ids) = (source d \<noteq> src)" by (rule eqv)
  qed simp
  finally have c3: "mset (map fst (docs_vec ?db')) = mset (map doc_id (docs ?db'))"
    by (simp only: d')
  have "consistent ?db'"
    unfolding consistent_def using c1 c2 c3 by (simp only: d' simp_thms)
  with assms show ?thesis
    by (simp add: delete_source_def Let_def)
qed

lemma delete_source_effect:
  "fst (delete_source db src) = length (filter (\<lambda>d. source d = src) (docs db))"
  "docs (snd (delete_source db src)) = filter (\<lambda>d. source d \<noteq> src) (docs db)"
proof -
  show "fst (delete_source db src) = length (filter (\<lambda>d. source d = src) (docs db))"
    by (simp add: delete_source_def Let_def)
  have "filter (\<lambda>d. source d \<noteq> src) (docs db) = docs db"
    if "filter (\<lambda>d. source d = src) (docs db) = []"
    using that by (induction "docs db") (auto simp: filter_empty_conv filter_id_conv)
  then show "docs (snd (delete_source db src)) = filter (\<lambda>d. source d \<noteq> src) (docs db)"
    by (simp add: delete_source_def Let_def delete_docs_def fold_delete_docs_vec)
qed

lemma index_batch_loop_append:
  "index_batch_loop db (pre @ rest) ids =
     (case index_batch_loop db pre ids of
        (Inl e, db') \<Rightarrow> (Inl e, db')
      | (Inr ids', db') \<Rightarrow> index_batch_loop db' rest ids')"
proof (induction pre arbitrary: db ids)
  case Nil
  then show ?case by simp
next
  case (Cons it pre)
  obtain src ci c emb md where it: "it = (src, ci, c, emb, md)" by (cases it)
  show ?case
    by (simp add: it Cons.IH split: prod.splits sum.splits)
qed

lemma index_batch_loop_bad:
  assumes "length (item_embedding bad) \<noteq> DIMENSIONS"
  shows "index_batch_loop db (bad # post) ids =
           (Inl DimensionMismatch,
            db\<lparr>docs := docs db @ [item_row (next_rowid (docs db)) bad],
               docs_fts := docs_fts db @ [(next_rowid (docs db), item_content bad)]\<rparr>)"
proof -
  obtain src ci c emb md where bad: "bad = (src, ci, c, emb, md)" by (cases bad)
  with assms have "length emb \<noteq> DIMENSIONS" by (simp add: item_embedding_def)
  then show ?thesis
    by (simp add: bad insert_docs_def insert_docs_vec_def Let_def item_row_def item_content_def)
qed

text \<open>
  C1 (amended). On a consistent store, \<open>index_document\<close> with an embedding of 768
  components returns the new id and leaves the store consistent; \<open>index_batch\<close> whose
  items all carry embeddings of 768 components returns ids and leaves the store
  consistent; \<open>delete_source\<close> always leaves it consistent. With ids unique in
  \<open>docs\<close>, consistency says that every chunk id has exactly one entry in the lexical
  index and exactly one in the vector index, and that neither index has an entry
  without a chunk.
\<close>

theorem store_consistency:
  assumes "consistent db"
  shows "(length emb = DIMENSIONS \<longrightarrow>
            fst (index_document db src ci c emb md) = Inr (next_rowid (docs db)) \<and>
            consistent (snd (index_document db src ci c emb md))) \<and>
         ((\<forall>it \<in> set items. length (item_embedding it) = DIMENSIONS) \<longrightarrow>
            (\<exists>ids. fst (index_batch db items) = Inr ids) \<and>
            consistent (snd (index_batch db items))) \<and>
         consistent (snd (delete_source db s))"
proof (intro conjI impI)
  assume "length emb = DIMENSIONS"
  with assms show "fst (index_document db src ci c emb md) = Inr (next_rowid (docs db))"
    and "consistent (snd (index_document db src ci c emb md))"
    by (rule index_document_ok)+
next
  assume "\<forall>it \<in> set items. length (item_embedding it) = DIMENSIONS"
  from index_batch_loop_ok [OF assms this, of "[]"]
  obtain new db' where "index_batch db items = (Inr new, db')" "consistent db'"
    by (auto simp: index_batch_def)
  then show "\<exists>ids. fst (index_batch db items) = Inr ids" and "consistent (snd (index_batch db items))"
    by simp_all
next
  from assms show "consistent (snd (delete_source db s))" by (rule delete_source_consistent)
qed

text \<open>
  C2 (amended). \<open>index_batch\<close> commits item by item. On a consistent store, when every
  embedding has 768 components the call returns one id per item, in input order: the
  k-th id is the id of the chunk, lexical and vector rows appended for the k-th item.
  When the items \<open>pre\<close> are well-formed and the next item \<open>bad\<close> has an embedding of
  another length, the call fails with the dimension error and the rows of \<open>pre\<close>
  together with the chunk and lexical rows of \<open>bad\<close> remain in the store.
\<close>

theorem index_batch_commits_per_item:
  assumes "consistent db"
  shows "((\<forall>it \<in> set items. length (item_embedding it) = DIMENSIONS) \<longrightarrow>
            (\<exists>ids db'. index_batch db items = (Inr ids, db') \<and> length ids = length items \<and>
               docs db' = docs db @ map2 item_row ids items \<and>
               docs_fts db' = docs_fts db @ map2 (\<lambda>i it. (i, item_content it)) ids items \<and>
               docs_vec db' = docs_vec db @ map2 (\<lambda>i it. (i, item_embedding it)) ids items)) \<and>
         ((\<forall>it \<in> set pre. length (item_embedding it) = DIMENSIONS) \<and>
          length (item_embedding bad) \<noteq> DIMENSIONS \<longrightarrow>
            (\<exists>ids i db'. index_batch db (pre @ bad # post) = (Inl DimensionMismatch, db') \<and>
               length ids = length pre \<and>
               docs db' = docs db @ map2 item_row ids pre @ [item_row i bad] \<and>
               docs_fts db' = docs_fts db @ map2 (\<lambda>i it. (i, item_content it)) ids pre
                                @ [(i, item_content bad)] \<and>
               docs_vec db' = docs_vec db @ map2 (\<lambda>i it. (i, item_embedding it)) ids pre))"
proof (intro conjI impI)
  assume "\<forall>it \<in> set items. length (item_embedding it) = DIMENSIONS"
  from index_batch_loop_ok [OF assms this, of "[]"]
  show "\<exists>ids db'. index_batch db items = (Inr ids, db') \<and> length ids = length items \<and>
               docs db' = docs db @ map2 item_row ids items \<and>
               docs_fts db' = docs_fts db @ map2 (\<lambda>i it. (i, item_content it)) ids items \<and>
               docs_vec db' = docs_vec db @ map2 (\<lambda>i it. (i, item_embedding it)) ids items"
    by (auto simp: index_batch_def)
next
  assume h: "(\<forall>it \<in> set pre. length (item_embedding it) = DIMENSIONS) \<and>
          length (item_embedding bad) \<noteq> DIMENSIONS"
  then have good: "\<forall>it \<in> set pre. length (item_embedding it) = DIMENSIONS"
    and bad: "length (item_embedding bad) \<noteq> DIMENSIONS" by simp_all
  from index_batch_loop_ok [OF assms good, of "[]"]
  obtain new db1 where p: "index_batch_loop db pre [] = (Inr new, db1)" "length new = length pre"
      "docs db1 = docs db @ map2 item_row new pre"
      "docs_fts db1 = docs_fts db @ map2 (\<lambda>i it. (i, item_content it)) new pre"
      "docs_vec db1 = docs_vec db @ map2 (\<lambda>i it. (i, item_embedding it)) new pre"
    by auto
  let ?i = "next_rowid (docs db1)"
  let ?db' = "db1\<lparr>docs := docs db1 @ [item_row ?i bad],
               docs_fts := docs_fts db1 @ [(?i, item_content bad)]\<rparr>"
  have "index_batch db (pre @ bad # post) = (Inl DimensionMismatch, ?db')"
    by (simp add: index_batch_def index_batch_loop_append p(1) index_batch_loop_bad [OF bad])
  then show "\<exists>ids i db'. index_batch db (pre @ bad # post) = (Inl DimensionMismatch, db') \<and>
               length ids = length pre \<and>
               docs db' = docs db @ map2 item_row ids pre @ [item_row i bad] \<and>
               docs_fts db' = docs_fts db @ map2 (\<lambda>i it. (i, item_content it)) ids pre
                                @ [(i, item_content bad)] \<and>
               docs_vec db' = docs_vec db @ map2 (\<lambda>i it. (i, item_embedding it)) ids pre"
    using p(2-5) by (intro exI [of _ new] exI [of _ ?i] exI [of _ ?db']) simp
qed

lemma consistent_empty_db: "consistent empty_db"
  by (simp add: consistent_def empty_db_def)

text \<open>The hypotheses of \<open>store_consistency\<close> hold on the empty store with one item.\<close>

theorem store_consistency_witness:
  "consistent empty_db \<and> length (replicate 768 (0::real)) = DIMENSIONS \<and>
   length (item_embedding (''a.md'', 0, ''fox'', replicate 768 0, None)) = DIMENSIONS \<and>
   fst (index_document empty_db ''a.md'' 0 ''fox'' (replicate 768 0) None) = Inr 1 \<and>
   consistent (snd (index_document empty_db ''a.md'' 0 ''fox'' (replicate 768 0) None)) \<and>
   consistent (snd (index_batch empty_db [(''a.md'', 0, ''fox'', replicate 768 0, None)])) \<and>
   consistent (snd (delete_source empty_db ''a.md''))"
proof -
  have d: "docs empty_db = []" by (simp add: empty_db_def)
  have h1: "length (replicate 768 (0::real)) = DIMENSIONS" by (simp add: DIMENSIONS_def)
  have h2: "\<forall>it \<in> set [(''a.md'', 0, ''fox'', replicate 768 (0::real), None :: string option)].
              length (item_embedding it) = DIMENSIONS"
    by (simp add: item_embedding_def DIMENSIONS_def)
  from store_consistency [OF consistent_empty_db, of "replicate 768 0" "''a.md''" 0 "''fox''" None
      "[(''a.md'', 0, ''fox'', replicate 768 0, None)]" "''a.md''"] h1 h2
  have "fst (index_document empty_db ''a.md'' 0 ''fox'' (replicate 768 0) None) = Inr (next_rowid (docs empty_db))"
    and "consistent (snd (index_document empty_db ''a.md'' 0 ''fox'' (replicate 768 0) None))"
    and "consistent (snd (index_batch empty_db [(''a.md'', 0, ''fox'', replicate 768 0, None)]))"
    and "consistent (snd (delete_source empty_db ''a.md''))"
    by blast+
  then show ?thesis
    using consistent_empty_db h1 h2 by (simp add: d next_rowid_def)
qed

text \<open>
  C1 as stated fails: \<open>index_document\<close> on the empty store with a two-component
  embedding raises at the vector insert, after the chunk and lexical rows were
  committed; the store it leaves has chunk 1 without a vector row.
\<close>

theorem index_document_breaks_consistency:
  "consistent empty_db \<and>
   index_document empty_db ''a.md'' 0 ''the quick brown fox'' [1, 0] None =
     (Inl DimensionMismatch,
      \<lparr>docs = [\<lparr>doc_id = 1, source = ''a.md'', chunk_index = 0,
                content = ''the quick brown fox'', metadata = ''{}''\<rparr>],
       docs_fts = [(1, ''the quick brown fox'')], docs_vec = []\<rparr>) \<and>
   \<not> consistent (snd (index_document empty_db ''a.md'' 0 ''the quick brown fox'' [1, 0] None))"
  by (simp add: consistent_def empty_db_def index_document_def insert_docs_def insert_docs_vec_def
          DIMENSIONS_def next_rowid_def metadata_json_def Let_def)

text \<open>The hypotheses of \<open>index_batch_commits_per_item\<close> at one good and one bad item.\<close>

theorem index_batch_commits_per_item_witness:
  "consistent empty_db \<and>
   length (item_embedding (''a.md'', 0, ''fox'', replicate 768 0, None)) = DIMENSIONS \<and>
   length (item_embedding (''a.md'', 1, ''dog'', [1, 0], None)) \<noteq> DIMENSIONS \<and>
   (\<exists>ids db'. index_batch empty_db [(''a.md'', 0, ''fox'', replicate 768 0, None)] = (Inr ids, db') \<and>
       length ids = 1 \<and> length (docs db') = 1 \<and> length (docs_vec db') = 1) \<and>
   (\<exists>db'. index_batch empty_db
             ([(''a.md'', 0, ''fox'', replicate 768 0, None)] @ (''a.md'', 1, ''dog'', [1, 0], None) # [])
         = (Inl DimensionMismatch, db') \<and> length (docs db') = 2 \<and> length (docs_vec db') = 1)"
proof -
  have h1: "\<forall>it \<in> set [(''a.md'', 0, ''fox'', replicate 768 (0::real), None :: string option)].
              length (item_embedding it) = DIMENSIONS"
    by (simp add: item_embedding_def DIMENSIONS_def)
  have h2: "length (item_embedding (''a.md'', 1, ''dog'', [1, 0], None)) \<noteq> DIMENSIONS"
    by (simp add: item_embedding_def DIMENSIONS_def)
  note t = index_batch_commits_per_item [OF consistent_empty_db,
      of "[(''a.md'', 0, ''fox'', replicate 768 0, None)]"
         "[(''a.md'', 0, ''fox'', replicate 768 0, None)]"
         "(''a.md'', 1, ''dog'', [1, 0], None)" "[]"]
  from t h1 obtain ids db' where a: "index_batch empty_db [(''a.md'', 0, ''fox'', replicate 768 0, None)] = (Inr ids, db')"
     "length ids = 1" "docs db' = docs empty_db @ map2 item_row ids [(''a.md'', 0, ''fox'', replicate 768 0, None)]"
     "docs_vec db' = docs_vec empty_db @ map2 (\<lambda>i it. (i, item_embedding it)) ids [(''a.md'', 0, ''fox'', replicate 768 0, None)]"
    by auto
  from t h1 h2 obtain ids2 i2 db2 where b:
     "index_batch empty_db ([(''a.md'', 0, ''fox'', replicate 768 0, None)] @ (''a.md'', 1, ''dog'', [1, 0], None) # [])
         = (Inl DimensionMismatch, db2)" "length ids2 = 1"
     "docs db2 = docs empty_db @ map2 item_row ids2 [(''a.md'', 0, ''fox'', replicate 768 0, None)] @ [item_row i2 (''a.md'', 1, ''dog'', [1, 0], None)]"
     "docs_vec db2 = docs_vec empty_db @ map2 (\<lambda>i it. (i, item_embedding it)) ids2 [(''a.md'', 0, ''fox'', replicate 768 0, None)]"
    by auto
  from a have a': "length (docs db') = 1" "length (docs_vec db') = 1" by (simp_all add: empty_db_def)
  from b have b': "length (docs db2) = 2" "length (docs_vec db2) = 1" by (simp_all add: empty_db_def)
  have h1': "length (item_embedding (''a.md'', 0, ''fox'', replicate 768 0, None)) = DIMENSIONS"
    using h1 by simp
  show ?thesis using consistent_empty_db h1' h2 a(1,2) a' b(1) b' by blast
qed

text \<open>
  C2 as stated fails: a batch of a well-formed item followed by an item with a
  two-component embedding raises, and leaves both chunk rows, both lexical rows and the
  first vector row behind: neither all rows nor none.
\<close>

theorem index_batch_not_atomic:
  "consistent empty_db \<and>
   index_batch empty_db [(''a.md'', 0, ''fox'', replicate 768 0, None), (''a.md'', 1, ''dog'', [1, 0], None)] =
     (Inl DimensionMismatch,
      \<lparr>docs = [\<lparr>doc_id = 1, source = ''a.md'', chunk_index = 0, content = ''fox'', metadata = ''{}''\<rparr>,
               \<lparr>doc_id = 2, source = ''a.md'', chunk_index = 1, content = ''dog'', metadata = ''{}''\<rparr>],
       docs_fts = [(1, ''fox''), (2, ''dog'')],
       docs_vec = [(1, replicate 768 0)]\<rparr>)"
  by (simp add: consistent_def empty_db_def index_batch_def insert_docs_def insert_docs_vec_def
          DIMENSIONS_def next_rowid_def metadata_json_def Let_def)

section \<open>Properties of the search engine\<close>

subsection \<open>Dictionaries built from result lists\<close>

lemma map_of_fold_update:
  "map_of (fold (\<lambda>r m. AList.update (kf r) (vf r) m) xs m0) =
     fold (\<lambda>r f. f(kf r \<mapsto> vf r)) xs (map_of m0)"
  by (induction xs arbitrary: m0) (simp_all add: update_conv')

lemma fold_upd_distinct:
  "distinct (map kf xs) \<Longrightarrow>
   fold (\<lambda>r f. f(kf r \<mapsto> vf r)) xs f i =
     (case find (\<lambda>r. kf r = i) xs of None \<Rightarrow> f i | Some r \<Rightarrow> Some (vf r))"
proof (induction xs arbitrary: f)
  case Nil
  then show ?case by simp
next
  case (Cons x xs)
  then have nin: "kf x \<notin> kf ` set xs" and d: "distinct (map kf xs)" by simp_all
  show ?case
  proof (cases "kf x = i")
    case True
    have "find (\<lambda>r. kf r = i) xs = None"
      unfolding find_None_iff
    proof
      assume "\<exists>r. r \<in> set xs \<and> kf r = i"
      then obtain r where "r \<in> set xs" "kf r = i" by blast
      with True have "kf x \<in> kf ` set xs" by (metis imageI)
      with nin show False by simp
    qed
    with True Cons.IH [OF d] show ?thesis by simp
  next
    case False
    with Cons.IH [OF d] show ?thesis by simp
  qed
qed

lemma map_of_rank_map:
  "distinct (map r_id xs) \<Longrightarrow>
   map_of (rank_map xs) i = map_option r_rank (find (\<lambda>r. r_id r = i) xs)"
  by (simp add: rank_map_def map_of_fold_update fold_upd_distinct split: option.splits)

lemma keys_fold_update:
  "fst ` set (fold (\<lambda>r m. AList.update (kf r) (vf r) m) xs m0) = fst ` set m0 \<union> kf ` set xs"
  by (induction xs arbitrary: m0) (auto simp: dom_update)

lemma keys_rank_map: "set (map fst (rank_map xs)) = set (map r_id xs)"
  by (simp add: rank_map_def keys_fold_update)

lemma map_of_result_lookup_gen:
  "map_of (fold (\<lambda>r m. if r_id r \<in> fst ` set m then m else AList.update (r_id r) r m) xs m0) i =
     (case map_of m0 i of Some r \<Rightarrow> Some r | None \<Rightarrow> find (\<lambda>r. r_id r = i) xs)"
proof (induction xs arbitrary: m0)
  case Nil
  then show ?case by (simp split: option.splits)
next
  case (Cons x xs)
  have k: "r_id x \<in> fst ` set m0 \<longleftrightarrow> map_of m0 (r_id x) \<noteq> None"
    by (simp add: map_of_eq_None_iff)
  show ?case
  proof (cases "map_of m0 (r_id x)")
    case None
    then show ?thesis by (simp add: Cons.IH update_conv' k split: option.splits)
  next
    case (Some r)
    then show ?thesis by (auto simp: Cons.IH k split: option.splits)
  qed
qed

lemma map_of_result_lookup:
  "map_of (result_lookup xs) i = find (\<lambda>r. r_id r = i) xs"
  by (simp add: result_lookup_def map_of_result_lookup_gen)

subsection \<open>Ranks are positions\<close>

lemma position_from_find:
  "map r_rank xs = map fst (py_enumerate n xs) \<Longrightarrow>
   position_from n xs i = map_option r_rank (find (\<lambda>r. r_id r = i) xs)"
  by (induction xs arbitrary: n) auto

lemma position_from_ge: "position_from n xs i = Some r \<Longrightarrow> n \<le> r"
proof (induction xs arbitrary: n)
  case Nil
  then show ?case by simp
next
  case (Cons x xs)
  show ?case
  proof (cases "r_id x = i")
    case True
    with Cons.prems show ?thesis by simp
  next
    case False
    with Cons.prems have "position_from (n + 1) xs i = Some r" by simp
    from Cons.IH [OF this] show ?thesis by simp
  qed
qed

lemma position_from_None: "position_from n xs i = None \<longleftrightarrow> i \<notin> set (map r_id xs)"
  by (induction xs arbitrary: n) auto

lemma length_py_enumerate: "length (py_enumerate n xs) = length xs"
  by (induction xs arbitrary: n) simp_all

lemma fst_enumerate_length:
  "length xs = length ys \<Longrightarrow> map fst (py_enumerate n xs) = map fst (py_enumerate n ys)"
  by (induction xs ys arbitrary: n rule: list_induct2) simp_all

lemma ranks_of_enumerated:
  assumes "\<And>p. r_rank (f p) = fst p"
  shows "map r_rank (map f (py_enumerate n ys)) = map fst (py_enumerate n (map f (py_enumerate n ys)))"
proof -
  have "map r_rank (map f (py_enumerate n ys)) = map fst (py_enumerate n ys)"
    by (simp add: assms)
  also have "\<dots> = map fst (py_enumerate n (map f (py_enumerate n ys)))"
    by (rule fst_enumerate_length) (simp add: length_py_enumerate)
  finally show ?thesis .
qed

lemma search_bm25_ranks:
  "search_bm25 fts q n = Inr B \<Longrightarrow> map r_rank B = map fst (py_enumerate 1 B)"
proof -
  assume a: "search_bm25 fts q n = Inr B"
  show ?thesis
  proof (cases "n = 0")
    case True
    with a have "B = []" by (simp add: search_bm25_def)
    then show ?thesis by simp
  next
    case False
    with a obtain rows where "fts q = Inr rows"
      and B: "B = map (\<lambda>(rank, (d, score)).
                  \<lparr>r_id = doc_id d, r_source = source d, r_chunk_index = chunk_index d,
                   r_content = content d, r_metadata = metadata d,
                   r_score = Some score, r_distance = None, r_rank = rank\<rparr>)
                (py_enumerate 1 (sql_limit n rows))"
      by (cases "fts q") (simp_all add: search_bm25_def)
    show ?thesis unfolding B by (rule ranks_of_enumerated) (simp add: case_prod_unfold)
  qed
qed

lemma search_vector_ranks:
  "search_vector knn e n = Inr V \<Longrightarrow> map r_rank V = map fst (py_enumerate 1 V)"
proof -
  assume "search_vector knn e n = Inr V"
  then have V: "V = map (\<lambda>(rank, (d, distance)).
                  \<lparr>r_id = doc_id d, r_source = source d, r_chunk_index = chunk_index d,
                   r_content = content d, r_metadata = metadata d,
                   r_score = None, r_distance = Some distance, r_rank = rank\<rparr>)
                (py_enumerate 1 (knn e n))"
    by (auto simp: search_vector_def split: if_splits)
  show ?thesis unfolding V by (rule ranks_of_enumerated) (simp add: case_prod_unfold)
qed

lemma rank_map_position:
  assumes "distinct (map r_id xs)" "map r_rank xs = map fst (py_enumerate 1 xs)"
  shows "map_of (rank_map xs) i = position_rank xs i"
  using assms by (simp add: map_of_rank_map position_rank_def position_from_find)

subsection \<open>Sorting, slicing and renumbering\<close>

lemma set_insort_desc: "set (insort_desc key x ys) = insert x (set ys)"
  by (induction ys) auto

lemma set_py_sort_desc: "set (py_sort_desc key xs) = set xs"
  by (induction xs) (simp_all add: py_sort_desc_def set_insort_desc)

lemma length_insort_desc: "length (insort_desc key x ys) = Suc (length ys)"
  by (induction ys) simp_all

lemma length_py_sort_desc: "length (py_sort_desc key xs) = length xs"
  by (induction xs) (simp_all add: py_sort_desc_def length_insort_desc)

lemma set_py_slice_to: "set (py_slice_to n xs) \<subseteq> set xs"
  by (simp add: py_slice_to_def set_take_subset)

lemma snd_py_enumerate: "map snd (py_enumerate n xs) = xs"
  by (induction xs arbitrary: n) simp_all

lemma in_py_enumerate: "(i, x) \<in> set (py_enumerate n xs) \<Longrightarrow> x \<in> set xs"
  by (induction xs arbitrary: n) auto

lemma list_all_assign_ranks:
  assumes "list_all P xs" and "\<And>r i. P (r\<lparr>r_rank := i\<rparr>) = P r"
  shows "list_all P (assign_ranks limit xs)"
  unfolding list_all_iff
proof
  fix y assume yin: "y \<in> set (assign_ranks limit xs)"
  have "\<exists>z \<in> set (py_enumerate 1 (py_slice_to limit xs)). y = (\<lambda>(i, r). r\<lparr>r_rank := i\<rparr>) z"
    using yin unfolding assign_ranks_def set_map by (rule imageE) (rule bexI)
  then obtain z where z: "z \<in> set (py_enumerate 1 (py_slice_to limit xs))"
    and yz: "y = (\<lambda>(i, r). r\<lparr>r_rank := i\<rparr>) z" ..
  obtain i r where zir: "z = (i, r)" by (rule prod.exhaust)
  from z have ir: "(i, r) \<in> set (py_enumerate 1 (py_slice_to limit xs))" unfolding zir .
  from yz have y: "y = r\<lparr>r_rank := i\<rparr>" unfolding zir prod.case .
  from ir have "r \<in> set (py_slice_to limit xs)" by (rule in_py_enumerate)
  with set_py_slice_to have "r \<in> set xs" by (rule subsetD)
  with assms(1) have "P r" unfolding list_all_iff by (rule bspec)
  then have "P (r\<lparr>r_rank := i\<rparr>)" by (rule iffD2 [OF assms(2)])
  then show "P y" unfolding y .
qed

lemma rrf_entry_ok_rank_update:
  "rrf_entry_ok B V fl k wb wv (r\<lparr>r_rank := i\<rparr>) = rrf_entry_ok B V fl k wb wv r"
  by (simp add: rrf_entry_ok_def)

subsection \<open>The fusion loop\<close>

lemma rrf_loop_ok:
  assumes "\<And>i. i \<in> set ids \<Longrightarrow> \<exists>r. map_of lookup i = Some r \<and> r_id r = i"
    and "\<And>i. i \<in> set ids \<Longrightarrow> k + (case map_of bm25_ranks i of None \<Rightarrow> dr | Some r \<Rightarrow> r) \<noteq> 0"
    and "\<And>i. i \<in> set ids \<Longrightarrow> k + (case map_of vec_ranks i of None \<Rightarrow> dr | Some r \<Rightarrow> r) \<noteq> 0"
  shows "\<exists>rs. rrf_loop bm25_ranks vec_ranks lookup dr k wb wv ids = Inr rs \<and> map r_id rs = ids \<and>
           list_all (\<lambda>r. bm25_rank r = map_of bm25_ranks (r_id r) \<and>
                          vec_rank r = map_of vec_ranks (r_id r) \<and>
                          rrf_score r =
                            wb * (1 / real_of_int (k + (case bm25_rank r of None \<Rightarrow> dr | Some n \<Rightarrow> n)))
                            + wv * (1 / real_of_int (k + (case vec_rank r of None \<Rightarrow> dr | Some n \<Rightarrow> n)))) rs"
  using assms
proof (induction ids)
  case Nil
  then show ?case by simp
next
  case (Cons i ids)
  from Cons.prems(1) [of i] obtain r where r: "map_of lookup i = Some r" "r_id r = i" by auto
  have nz: "k + (case map_of bm25_ranks i of None \<Rightarrow> dr | Some r \<Rightarrow> r) \<noteq> 0"
           "k + (case map_of vec_ranks i of None \<Rightarrow> dr | Some r \<Rightarrow> r) \<noteq> 0"
    using Cons.prems(2) [of i] Cons.prems(3) [of i] by simp_all
  have "\<exists>rs. rrf_loop bm25_ranks vec_ranks lookup dr k wb wv ids = Inr rs \<and> map r_id rs = ids \<and>
           list_all (\<lambda>r. bm25_rank r = map_of bm25_ranks (r_id r) \<and>
                          vec_rank r = map_of vec_ranks (r_id r) \<and>
                          rrf_score r =
                            wb * (1 / real_of_int (k + (case bm25_rank r of None \<Rightarrow> dr | Some n \<Rightarrow> n)))
                            + wv * (1 / real_of_int (k + (case vec_rank r of None \<Rightarrow> dr | Some n \<Rightarrow> n)))) rs"
  proof (rule Cons.IH)
    fix j assume "j \<in> set ids"
    then have j: "j \<in> set (i # ids)" by simp
    from j show "\<exists>r. map_of lookup j = Some r \<and> r_id r = j" by (rule Cons.prems(1))
    from j show "k + (case map_of bm25_ranks j of None \<Rightarrow> dr | Some r \<Rightarrow> r) \<noteq> 0" by (rule Cons.prems(2))
    from j show "k + (case map_of vec_ranks j of None \<Rightarrow> dr | Some r \<Rightarrow> r) \<noteq> 0" by (rule Cons.prems(3))
  qed
  then obtain rs where rs: "rrf_loop bm25_ranks vec_ranks lookup dr k wb wv ids = Inr rs" "map r_id rs = ids"
     "list_all (\<lambda>r. bm25_rank r = map_of bm25_ranks (r_id r) \<and>
                          vec_rank r = map_of vec_ranks (r_id r) \<and>
                          rrf_score r =
                            wb * (1 / real_of_int (k + (case bm25_rank r of None \<Rightarrow> dr | Some n \<Rightarrow> n)))
                            + wv * (1 / real_of_int (k + (case vec_rank r of None \<Rightarrow> dr | Some n \<Rightarrow> n)))) rs"
    by blast
  define b where "b = (case map_of bm25_ranks i of None \<Rightarrow> dr | Some r \<Rightarrow> r)"
  define v where "v = (case map_of vec_ranks i of None \<Rightarrow> dr | Some r \<Rightarrow> r)"
  define new :: hybrid_result where "new =
     \<lparr>r_id = r_id r, r_source = r_source r, r_chunk_index = r_chunk_index r,
      r_content = r_content r, r_metadata = r_metadata r,
      r_score = r_score r, r_distance = r_distance r, r_rank = r_rank r,
      rrf_score = wb * (1 / real_of_int (k + b)) + wv * (1 / real_of_int (k + v)),
      bm25_rank = map_of bm25_ranks i, vec_rank = map_of vec_ranks i\<rparr>"
  have nz': "k + b \<noteq> 0" "k + v \<noteq> 0" using nz by (simp_all add: b_def v_def)
  have step: "rrf_loop bm25_ranks vec_ranks lookup dr k wb wv (i # ids) = Inr (new # rs)"
    unfolding rrf_loop.simps Let_def b_def [symmetric] v_def [symmetric]
    using nz' by (simp add: r(1) rs(1) new_def)
  have f: "r_id new = i" "bm25_rank new = map_of bm25_ranks i" "vec_rank new = map_of vec_ranks i"
    "rrf_score new = wb * (1 / real_of_int (k + b)) + wv * (1 / real_of_int (k + v))"
    by (simp_all add: new_def r(2))
  have ok: "bm25_rank new = map_of bm25_ranks (r_id new) \<and>
            vec_rank new = map_of vec_ranks (r_id new) \<and>
            rrf_score new =
              wb * (1 / real_of_int (k + (case bm25_rank new of None \<Rightarrow> dr | Some n \<Rightarrow> n)))
              + wv * (1 / real_of_int (k + (case vec_rank new of None \<Rightarrow> dr | Some n \<Rightarrow> n)))"
    unfolding new_def b_def v_def by (simp add: r(2))
  show ?case
    by (intro exI [of _ "new # rs"] conjI) (simp_all only: step list.map f(1) rs(2) list.pred_inject ok rs(3) simp_thms)
qed

lemma find_by_id:
  "i \<in> set (map r_id xs) \<Longrightarrow> \<exists>r. find (\<lambda>r. r_id r = i) xs = Some r \<and> r_id r = i"
  by (induction xs) auto

lemma length_search_bm25: "0 \<le> n \<Longrightarrow> search_bm25 fts q n = Inr B \<Longrightarrow> length B \<le> nat n"
  by (cases "fts q") (auto simp: search_bm25_def length_py_enumerate sql_limit_def split: if_splits)

text \<open>What a fusion loop that has returned has computed.\<close>

lemma rrf_loop_sound:
  assumes "rrf_loop bm25_ranks vec_ranks lookup dr k wb wv ids = Inr rs"
    and "\<And>i r. map_of lookup i = Some r \<Longrightarrow> r_id r = i"
  shows "map r_id rs = ids \<and>
         list_all (\<lambda>r. bm25_rank r = map_of bm25_ranks (r_id r) \<and>
                        vec_rank r = map_of vec_ranks (r_id r) \<and>
                        rrf_score r =
                          wb * (1 / real_of_int (k + (case bm25_rank r of None \<Rightarrow> dr | Some n \<Rightarrow> n)))
                          + wv * (1 / real_of_int (k + (case vec_rank r of None \<Rightarrow> dr | Some n \<Rightarrow> n)))) rs"
  using assms(1)
proof (induction ids arbitrary: rs)
  case Nil
  then show ?case by simp
next
  case (Cons i ids)
  define b where "b = (case map_of bm25_ranks i of None \<Rightarrow> dr | Some r \<Rightarrow> r)"
  define v where "v = (case map_of vec_ranks i of None \<Rightarrow> dr | Some r \<Rightarrow> r)"
  define new :: "search_result \<Rightarrow> hybrid_result" where "new = (\<lambda>r.
     \<lparr>r_id = r_id r, r_source = r_source r, r_chunk_index = r_chunk_index r,
      r_content = r_content r, r_metadata = r_metadata r,
      r_score = r_score r, r_distance = r_distance r, r_rank = r_rank r,
      rrf_score = wb * (1 / real_of_int (k + b)) + wv * (1 / real_of_int (k + v)),
      bm25_rank = map_of bm25_ranks i, vec_rank = map_of vec_ranks i\<rparr>)"
  have step: "rrf_loop bm25_ranks vec_ranks lookup dr k wb wv (i # ids) =
     (if k + b = 0 \<or> k + v = 0 then Inl ZeroDivisionError
      else (case map_of lookup i of
              None \<Rightarrow> Inl KeyError
            | Some r \<Rightarrow>
               (case rrf_loop bm25_ranks vec_ranks lookup dr k wb wv ids of
                  Inl e \<Rightarrow> Inl e
                | Inr rs \<Rightarrow> Inr (new r # rs))))"
    unfolding rrf_loop.simps Let_def b_def v_def new_def ..
  from Cons.prems have nz: "\<not> (k + b = 0 \<or> k + v = 0)"
    unfolding step by (rule contrapos_pn) simp
  from Cons.prems nz obtain r where r: "map_of lookup i = Some r"
    unfolding step by (cases "map_of lookup i") simp_all
  from Cons.prems nz obtain rs' where rs': "rrf_loop bm25_ranks vec_ranks lookup dr k wb wv ids = Inr rs'"
    unfolding step r by (cases "rrf_loop bm25_ranks vec_ranks lookup dr k wb wv ids") simp_all
  from Cons.prems nz have rs: "rs = new r # rs'"
    unfolding step r rs' by simp
  from r have ri: "r_id r = i" by (rule assms(2))
  from Cons.IH [OF rs'] have ih1: "map r_id rs' = ids"
    and ih2: "list_all (\<lambda>r. bm25_rank r = map_of bm25_ranks (r_id r) \<and>
                        vec_rank r = map_of vec_ranks (r_id r) \<and>
                        rrf_score r =
                          wb * (1 / real_of_int (k + (case bm25_rank r of None \<Rightarrow> dr | Some n \<Rightarrow> n)))
                          + wv * (1 / real_of_int (k + (case vec_rank r of None \<Rightarrow> dr | Some n \<Rightarrow> n)))) rs'"
    by simp_all
  have f: "r_id (new r) = i" by (simp add: new_def ri)
  have ok: "bm25_rank (new r) = map_of bm25_ranks (r_id (new r)) \<and>
            vec_rank (new r) = map_of vec_ranks (r_id (new r)) \<and>
            rrf_score (new r) =
              wb * (1 / real_of_int (k + (case bm25_rank (new r) of None \<Rightarrow> dr | Some n \<Rightarrow> n)))
              + wv * (1 / real_of_int (k + (case vec_rank (new r) of None \<Rightarrow> dr | Some n \<Rightarrow> n)))"
    unfolding new_def b_def v_def by (simp add: ri)
  show ?case
    unfolding rs by (simp only: list.map f ih1 list.pred_inject ok ih2 simp_thms)
qed

lemma result_lookup_id: "map_of (result_lookup xs) i = Some r \<Longrightarrow> r_id r = i"
  by (auto simp: map_of_result_lookup find_Some_iff)

lemma list_all_py_sort_desc: "list_all P (py_sort_desc key xs) = list_all P xs"
  by (simp add: list_all_iff set_py_sort_desc)

text \<open>
  When neither \<open>k\<close> nor \<open>limit\<close> is negative and both paths answer, no divisor is zero
  and \<open>search_hybrid\<close> returns.
\<close>

lemma search_hybrid_returns:
  assumes k: "0 \<le> k" and limit: "0 \<le> limit"
    and B: "search_bm25 fts query (limit * 3) = Inr B"
    and V: "search_vector knn embedding (limit * 3) = Inr V"
    and dB: "distinct (map r_id B)" and dV: "distinct (map r_id V)"
    and S: "S = set (map r_id B) \<union> set (map r_id V)"
    and iter: "set (iter S) = S"
  shows "\<exists>out. search_hybrid iter fts knn query embedding limit k wb wv = Inr out"
proof -
  let ?dr = "limit * 3 + 1"
  have rB: "map_of (rank_map B) i = position_rank B i" for i
    using dB search_bm25_ranks [OF B] by (rule rank_map_position)
  have rV: "map_of (rank_map V) i = position_rank V i" for i
    using dV search_vector_ranks [OF V] by (rule rank_map_position)
  have ids: "iter (set (map fst (rank_map B)) \<union> set (map fst (rank_map V))) = iter S"
    by (simp only: keys_rank_map S)
  have dr: "1 \<le> ?dr" using limit by simp
  have pos: "k + (case position_rank xs i of None \<Rightarrow> ?dr | Some r \<Rightarrow> r) \<noteq> 0"
    for xs :: "search_result list" and i
  proof (cases "position_rank xs i")
    case None
    with k dr show ?thesis by simp
  next
    case (Some r)
    then have "1 \<le> r" unfolding position_rank_def by (rule position_from_ge)
    with k Some show ?thesis by simp
  qed
  have look: "\<exists>r. map_of (result_lookup (B @ V)) i = Some r \<and> r_id r = i" if "i \<in> set (iter S)" for i
  proof -
    from that iter S have "i \<in> set (map r_id (B @ V))" by simp
    then show ?thesis unfolding map_of_result_lookup by (rule find_by_id)
  qed
  from rrf_loop_ok [where ids = "iter S" and lookup = "result_lookup (B @ V)" and k = k
      and bm25_ranks = "rank_map B" and dr = ?dr and vec_ranks = "rank_map V" and wb = wb and wv = wv,
      OF look]
  obtain rs where rs: "rrf_loop (rank_map B) (rank_map V) (result_lookup (B @ V)) ?dr k wb wv (iter S) = Inr rs"
    using pos by (auto simp only: rB rV)
  have c1: "rrf_results iter B V (limit * 3) k wb wv = Inr rs"
    unfolding rrf_results_def Let_def ids by (rule rs)
  have "search_hybrid iter fts knn query embedding limit k wb wv =
          Inr (assign_ranks limit (py_sort_desc rrf_score rs))"
    unfolding search_hybrid_def Let_def B V by (simp only: c1 sum.case)
  then show ?thesis ..
qed

text \<open>
  C3 (amended). Let \<open>search_hybrid\<close> return the list \<open>out\<close>. It has fetched with the limit
  \<open>3 * limit\<close> from both paths, whose lists are \<open>B\<close> and \<open>V\<close> (at most \<open>3 * limit\<close> results on
  the lexical path when \<open>limit\<close> is not negative). Each path lists a record once (its id
  is the primary key of \<open>docs\<close>), and Python enumerates every element of the id set
  once. Then the fused list \<open>rs\<close> has exactly one entry for every id of either list,
  \<open>out\<close> is \<open>rs\<close> sorted, cut and renumbered, and every entry, in \<open>rs\<close> and in \<open>out\<close>,
  satisfies \<open>rrf_entry_ok\<close>: its \<open>bm25_rank\<close> and \<open>vec_rank\<close> are the positions of its id in
  the two lists, null when missing, and its score is
  \<open>w_bm25 / (k + bm25_rank) + w_vec / (k + vec_rank)\<close> with the sentinel \<open>3 * limit + 1\<close> for
  a missing rank. This holds for every \<open>k\<close>, every \<open>limit\<close> and all weights.
\<close>

theorem search_hybrid_rrf:
  assumes out: "search_hybrid iter fts knn query embedding limit k wb wv = Inr out"
    and B: "search_bm25 fts query (limit * 3) = Inr B"
    and V: "search_vector knn embedding (limit * 3) = Inr V"
    and dB: "distinct (map r_id B)" and dV: "distinct (map r_id V)"
    and S: "S = set (map r_id B) \<union> set (map r_id V)"
    and iter: "set (iter S) = S" "distinct (iter S)"
  shows "\<exists>rs. rrf_results iter B V (limit * 3) k wb wv = Inr rs \<and>
           set (map r_id rs) = S \<and> distinct (map r_id rs) \<and>
           list_all (rrf_entry_ok B V (limit * 3) k wb wv) rs \<and>
           out = assign_ranks limit (py_sort_desc rrf_score rs) \<and>
           list_all (rrf_entry_ok B V (limit * 3) k wb wv) out \<and>
           (0 \<le> limit \<longrightarrow> length B \<le> nat (limit * 3))"
proof -
  let ?dr = "limit * 3 + 1"
  from out obtain rs where c1: "rrf_results iter B V (limit * 3) k wb wv = Inr rs"
    and c4: "out = assign_ranks limit (py_sort_desc rrf_score rs)"
    unfolding search_hybrid_def Let_def B V
    by (cases "rrf_results iter B V (limit * 3) k wb wv") simp_all
  have rB: "map_of (rank_map B) i = position_rank B i" for i
    using dB search_bm25_ranks [OF B] by (rule rank_map_position)
  have rV: "map_of (rank_map V) i = position_rank V i" for i
    using dV search_vector_ranks [OF V] by (rule rank_map_position)
  have ids: "iter (set (map fst (rank_map B)) \<union> set (map fst (rank_map V))) = iter S"
    by (simp only: keys_rank_map S)
  from c1 have loop: "rrf_loop (rank_map B) (rank_map V) (result_lookup (B @ V)) ?dr k wb wv (iter S) = Inr rs"
    unfolding rrf_results_def Let_def ids .
  from rrf_loop_sound [OF loop result_lookup_id]
  have ids_rs: "map r_id rs = iter S"
    and all: "list_all (\<lambda>r. bm25_rank r = map_of (rank_map B) (r_id r) \<and>
                          vec_rank r = map_of (rank_map V) (r_id r) \<and>
                          rrf_score r =
                            wb * (1 / real_of_int (k + (case bm25_rank r of None \<Rightarrow> ?dr | Some n \<Rightarrow> n)))
                            + wv * (1 / real_of_int (k + (case vec_rank r of None \<Rightarrow> ?dr | Some n \<Rightarrow> n)))) rs"
    by simp_all
  have c2: "set (map r_id rs) = S" "distinct (map r_id rs)"
    using iter by (simp_all only: ids_rs)
  have c3: "list_all (rrf_entry_ok B V (limit * 3) k wb wv) rs"
    using all unfolding rrf_entry_ok_def rB rV .
  have "list_all (rrf_entry_ok B V (limit * 3) k wb wv) (py_sort_desc rrf_score rs)"
    using c3 by (simp only: list_all_py_sort_desc)
  then have c5: "list_all (rrf_entry_ok B V (limit * 3) k wb wv) out"
    unfolding c4 by (rule list_all_assign_ranks) (rule rrf_entry_ok_rank_update)
  have c6: "0 \<le> limit \<longrightarrow> length B \<le> nat (limit * 3)"
  proof
    assume "0 \<le> limit"
    then have "0 \<le> limit * 3" by simp
    then show "length B \<le> nat (limit * 3)" using B by (rule length_search_bm25)
  qed
  from c1 c2 c3 c4 c5 c6 show ?thesis by (intro exI [of _ rs] conjI)
qed

lemmas run_defs = search_hybrid_def search_bm25_def search_vector_def rrf_results_def rank_map_def
  result_lookup_def assign_ranks_def py_sort_desc_def py_slice_to_def sql_limit_def DIMENSIONS_def
  doc_fox_def doc_dog_def zero_vec_def Let_def

subsection \<open>The sort is descending and stable\<close>

lemma insort_desc_lex:
  assumes "sorted_wrt (\<lambda>a b. key b < key a \<or> (key a = key b \<and> R a b)) ys"
    and "\<forall>y \<in> set ys. R x y"
  shows "sorted_wrt (\<lambda>a b. key b < key a \<or> (key a = key b \<and> R a b)) (insort_desc key x ys)"
  using assms
proof (induction ys)
  case Nil
  then show ?case by simp
next
  case (Cons y ys)
  show ?case
  proof (cases "key y \<le> key x")
    case True
    have "key z < key x \<or> (key x = key z \<and> R x z)" if "z \<in> set (y # ys)" for z
    proof -
      have "key z \<le> key y" using that Cons.prems(1) by auto
      with True have "key z \<le> key x" by simp
      moreover have "R x z" using that Cons.prems(2) by blast
      ultimately show ?thesis by auto
    qed
    with True Cons.prems(1) show ?thesis by simp
  next
    case False
    have "sorted_wrt (\<lambda>a b. key b < key a \<or> (key a = key b \<and> R a b)) (insort_desc key x ys)"
      using Cons.prems by (intro Cons.IH) simp_all
    with False Cons.prems(1) show ?thesis by (auto simp: set_insort_desc)
  qed
qed

lemma py_sort_desc_lex:
  "sorted_wrt R xs \<Longrightarrow>
   sorted_wrt (\<lambda>a b. key b < key a \<or> (key a = key b \<and> R a b)) (py_sort_desc key xs)"
proof (induction xs)
  case Nil
  then show ?case by (simp add: py_sort_desc_def)
next
  case (Cons x xs)
  then have "sorted_wrt (\<lambda>a b. key b < key a \<or> (key a = key b \<and> R a b)) (py_sort_desc key xs)"
    and "\<forall>y \<in> set (py_sort_desc key xs). R x y"
    by (simp_all add: set_py_sort_desc)
  then have "sorted_wrt (\<lambda>a b. key b < key a \<or> (key a = key b \<and> R a b))
               (insort_desc key x (py_sort_desc key xs))"
    by (rule insort_desc_lex)
  then show ?case by (simp add: py_sort_desc_def)
qed

lemma py_sort_desc_sorted: "sorted_wrt (\<lambda>a b. key b \<le> key a) (py_sort_desc key xs)"
proof -
  have "sorted_wrt (\<lambda>a b. True) xs" by (induction xs) simp_all
  then have "sorted_wrt (\<lambda>a b. key b < key a \<or> (key a = key b \<and> True)) (py_sort_desc key xs)"
    by (rule py_sort_desc_lex)
  then show ?thesis by (rule sorted_wrt_mono_rel [rotated]) auto
qed

lemma filter_insort_desc:
  "filter (\<lambda>y. key y = s) (insort_desc key x ys) =
     (if key x = s then x # filter (\<lambda>y. key y = s) ys else filter (\<lambda>y. key y = s) ys)"
  by (induction ys) auto

lemma py_sort_desc_stable:
  "filter (\<lambda>y. key y = s) (py_sort_desc key xs) = filter (\<lambda>y. key y = s) xs"
  by (induction xs) (simp_all add: py_sort_desc_def filter_insort_desc)

subsection \<open>Renumbering keeps order and length\<close>

lemma assign_ranks_ranks:
  "map r_rank (assign_ranks limit xs) = map fst (py_enumerate 1 (assign_ranks limit xs))"
  unfolding assign_ranks_def by (rule ranks_of_enumerated) (simp add: case_prod_unfold)

lemma length_assign_ranks: "0 \<le> limit \<Longrightarrow> length (assign_ranks limit xs) \<le> nat limit"
  by (simp add: assign_ranks_def length_py_enumerate py_slice_to_def)

lemma assign_ranks_zero: "assign_ranks 0 xs = []"
  by (simp add: assign_ranks_def py_slice_to_def)

lemma assign_ranks_Nil: "assign_ranks limit [] = []"
  by (simp add: assign_ranks_def py_slice_to_def)

lemma sorted_wrt_py_slice_to: "sorted_wrt Q xs \<Longrightarrow> sorted_wrt Q (py_slice_to n xs)"
  by (simp add: py_slice_to_def sorted_wrt_take)

lemma sorted_wrt_renumber:
  assumes "sorted_wrt Q ys" and "\<And>a b i j. Q (a\<lparr>r_rank := i\<rparr>) (b\<lparr>r_rank := j\<rparr>) = Q a b"
  shows "sorted_wrt Q (map (\<lambda>(i, r). r\<lparr>r_rank := i\<rparr>) (py_enumerate n ys))"
  using assms(1)
proof (induction ys arbitrary: n)
  case Nil
  then show ?case by simp
next
  case (Cons y ys)
  from Cons.prems have tl: "sorted_wrt Q ys" and hd: "\<forall>z \<in> set ys. Q y z" by simp_all
  have "Q (y\<lparr>r_rank := n\<rparr>) w" if "w \<in> set (map (\<lambda>(i, r). r\<lparr>r_rank := i\<rparr>) (py_enumerate (n + 1) ys))" for w
  proof -
    from that have "\<exists>p \<in> set (py_enumerate (n + 1) ys). w = (\<lambda>(i, r). r\<lparr>r_rank := i\<rparr>) p"
      unfolding set_map by (rule imageE) (rule bexI)
    then obtain p where p: "p \<in> set (py_enumerate (n + 1) ys)" and w: "w = (\<lambda>(i, r). r\<lparr>r_rank := i\<rparr>) p" ..
    obtain j r where pjr: "p = (j, r)" by (rule prod.exhaust)
    from p have "r \<in> set ys" unfolding pjr by (rule in_py_enumerate)
    with hd have "Q y r" by (rule bspec)
    then have "Q (y\<lparr>r_rank := n\<rparr>) (r\<lparr>r_rank := j\<rparr>)" by (rule iffD2 [OF assms(2)])
    then show ?thesis unfolding w pjr prod.case .
  qed
  then have "\<forall>w \<in> set (map (\<lambda>(i, r). r\<lparr>r_rank := i\<rparr>) (py_enumerate (n + 1) ys)). Q (y\<lparr>r_rank := n\<rparr>) w" ..
  moreover have "sorted_wrt Q (map (\<lambda>(i, r). r\<lparr>r_rank := i\<rparr>) (py_enumerate (n + 1) ys))"
    using tl by (rule Cons.IH)
  ultimately show ?case
    unfolding py_enumerate.simps list.map prod.case sorted_wrt.simps by (rule conjI)
qed

lemma sorted_wrt_assign_ranks:
  assumes "sorted_wrt Q xs" and "\<And>a b i j. Q (a\<lparr>r_rank := i\<rparr>) (b\<lparr>r_rank := j\<rparr>) = Q a b"
  shows "sorted_wrt Q (assign_ranks limit xs)"
  unfolding assign_ranks_def
  using sorted_wrt_py_slice_to [OF assms(1)] assms(2) by (rule sorted_wrt_renumber)

lemma enumerate_increasing: "sorted_wrt (<) (map fst (py_enumerate n xs))"
proof (induction xs arbitrary: n)
  case Nil
  then show ?case by simp
next
  case (Cons x xs)
  have ge: "n < i" if "i \<in> set (map fst (py_enumerate (n + 1) ys))" for i and ys :: "'a list"
    using that
  proof (induction ys arbitrary: n)
    case Nil
    then show ?case by simp
  next
    case (Cons y ys)
    from Cons.prems have "i = n + 1 \<or> i \<in> set (map fst (py_enumerate (n + 1 + 1) ys))" by simp
    then show ?case
    proof
      assume "i = n + 1" then show ?thesis by simp
    next
      assume "i \<in> set (map fst (py_enumerate (n + 1 + 1) ys))"
      then have "n + 1 < i" by (rule Cons.IH)
      then show ?thesis by simp
    qed
  qed
  show ?case using Cons.IH [of "n + 1"] ge [of _ xs] by simp
qed

lemma ranks_increasing:
  "map r_rank xs = map fst (py_enumerate n xs) \<Longrightarrow> sorted_wrt (\<lambda>a b. r_rank a < r_rank b) xs"
  using enumerate_increasing [of n xs] by (simp add: sorted_wrt_map [symmetric])

lemmas example_defs = example_fts_def example_knn_def example_iter_def example_rerank_def
  swapped_fts_def swapped_knn_def swapped_iter_def

lemma rrf_loop_ids:
  "rrf_loop br vr (result_lookup xs) dr k wb wv ids = Inr rs \<Longrightarrow> map r_id rs = ids"
proof (induction ids arbitrary: rs)
  case Nil
  then show ?case by simp
next
  case (Cons i ids)
  from Cons.prems obtain r rs' where
    r: "find (\<lambda>r. r_id r = i) xs = Some r"
    and rs': "rrf_loop br vr (result_lookup xs) dr k wb wv ids = Inr rs'"
    and rs: "map r_id rs = r_id r # map r_id rs'"
    by (auto simp: Let_def map_of_result_lookup split: if_splits option.splits sum.splits)
  from r have "r_id r = i" by (auto simp: find_Some_iff)
  with Cons.IH [OF rs'] rs show ?case by simp
qed

text \<open>
  C4 (amended). A successful \<open>search_hybrid\<close> returns its results sorted by \<open>rrf_score\<close>
  descending. The sort is stable and has no further key: results of equal score stay
  in the order in which the id set was enumerated. The returned list depends on the
  enumeration only through the order it gives to the ids of the two lists, so two runs
  that enumerate them alike return the same list.
\<close>

theorem search_hybrid_order:
  assumes out: "search_hybrid iter fts knn query embedding limit k wb wv = Inr out"
    and B: "search_bm25 fts query (limit * 3) = Inr B"
    and V: "search_vector knn embedding (limit * 3) = Inr V"
    and same: "iter' (set (map r_id B) \<union> set (map r_id V)) = iter (set (map r_id B) \<union> set (map r_id V))"
  shows "sorted_wrt (\<lambda>a b. rrf_score b \<le> rrf_score a) out \<and>
         (\<exists>rs. rrf_results iter B V (limit * 3) k wb wv = Inr rs \<and>
               map r_id rs = iter (set (map r_id B) \<union> set (map r_id V)) \<and>
               out = assign_ranks limit (py_sort_desc rrf_score rs) \<and>
               (\<forall>s. filter (\<lambda>r. rrf_score r = s) (py_sort_desc rrf_score rs) =
                    filter (\<lambda>r. rrf_score r = s) rs)) \<and>
         search_hybrid iter' fts knn query embedding limit k wb wv = Inr out"
proof -
  from out obtain rs where rs: "rrf_results iter B V (limit * 3) k wb wv = Inr rs"
    and o: "out = assign_ranks limit (py_sort_desc rrf_score rs)"
    unfolding search_hybrid_def Let_def B V
    by (cases "rrf_results iter B V (limit * 3) k wb wv") simp_all
  have keys: "set (map fst (rank_map B)) \<union> set (map fst (rank_map V)) = set (map r_id B) \<union> set (map r_id V)"
    by (simp only: keys_rank_map)
  have ids: "map r_id rs = iter (set (map r_id B) \<union> set (map r_id V))"
    using rs unfolding rrf_results_def Let_def keys by (rule rrf_loop_ids)
  have "rrf_results iter' B V (limit * 3) k wb wv = rrf_results iter B V (limit * 3) k wb wv"
    unfolding rrf_results_def Let_def keys same ..
  then have o': "search_hybrid iter' fts knn query embedding limit k wb wv = Inr out"
    unfolding search_hybrid_def Let_def B V by (simp add: rs o)
  have "sorted_wrt (\<lambda>a b. rrf_score b \<le> rrf_score a) (py_sort_desc rrf_score rs)"
    by (rule py_sort_desc_sorted)
  then have s: "sorted_wrt (\<lambda>a b. rrf_score b \<le> rrf_score a) out"
    unfolding o by (rule sorted_wrt_assign_ranks) simp
  have st: "\<forall>s. filter (\<lambda>r. rrf_score r = s) (py_sort_desc rrf_score rs) =
                filter (\<lambda>r. rrf_score r = s) rs"
    by (simp add: py_sort_desc_stable)
  from s rs ids o st o' show ?thesis by (intro conjI exI [of _ rs])
qed

lemma ranks_attach_scores:
  "length cs \<le> length ss \<Longrightarrow> map r_rank (attach_scores cs ss) = map r_rank cs"
proof -
  assume le: "length cs \<le> length ss"
  have "map r_rank (attach_scores cs ss) = map (r_rank \<circ> fst) (zip cs ss)"
    by (simp add: attach_scores_def case_prod_unfold comp_def)
  also have "\<dots> = map r_rank (map fst (zip cs ss))" by simp
  also have "map fst (zip cs ss) = cs" using le by (simp add: map_fst_zip_take min_def)
  finally show ?thesis .
qed

lemma length_attach_scores:
  "length cs \<le> length ss \<Longrightarrow> length (attach_scores cs ss) = length cs"
  by (simp add: attach_scores_def)

lemma search_hybrid_ranks:
  "search_hybrid iter fts knn q e limit k wb wv = Inr out \<Longrightarrow>
   map r_rank out = map fst (py_enumerate 1 out)"
  by (auto simp: search_hybrid_def Let_def assign_ranks_ranks split: sum.splits)

lemma search_hybrid_limit_zero:
  "search_hybrid iter fts knn q e 0 k wb wv = Inr out \<Longrightarrow> out = []"
  by (auto simp: search_hybrid_def Let_def assign_ranks_zero split: sum.splits)

text \<open>
  C5 (amended). Let \<open>search_hybrid_reranked\<close> return the list \<open>out\<close>. Then the hybrid
  search has returned its \<open>candidates\<close>, and \<open>out\<close> is the slice \<open>[:limit]\<close> of the
  candidates sorted by reranker score descending, renumbered: at most \<open>limit\<close> results
  when \<open>limit\<close> is not negative, the \<open>rank\<close> of each its 1-based position, the scores
  descending, and before the renumbering equal scores in ascending order of the RRF
  rank. When \<open>rerank_top_k\<close> is 0 there are no candidates; without candidates the result
  is empty and the reranker is not called; with candidates it is called once, on their
  contents, and has returned a score for each.
\<close>

theorem search_hybrid_reranked_result:
  assumes run: "search_hybrid_reranked iter fts knn rerank query embedding limit rerank_top_k = (Inr out, calls)"
  shows "\<exists>candidates scores.
           search_hybrid iter fts knn query embedding rerank_top_k 60 1 1 = Inr candidates \<and>
           scores = rerank query (map r_content candidates) \<and>
           out = assign_ranks limit (py_sort_desc rerank_score (attach_scores candidates scores)) \<and>
           (0 \<le> limit \<longrightarrow> length out \<le> nat limit) \<and>
           map r_rank out = map fst (py_enumerate 1 out) \<and>
           sorted_wrt (\<lambda>a b. rerank_score b \<le> rerank_score a) out \<and>
           sorted_wrt (\<lambda>a b. rerank_score b < rerank_score a \<or>
                               (rerank_score a = rerank_score b \<and> r_rank a < r_rank b))
             (py_sort_desc rerank_score (attach_scores candidates scores)) \<and>
           (rerank_top_k = 0 \<longrightarrow> candidates = []) \<and>
           (candidates = [] \<longrightarrow> out = [] \<and> calls = []) \<and>
           (candidates \<noteq> [] \<longrightarrow>
              calls = [(query, map r_content candidates)] \<and> length candidates \<le> length scores)"
proof -
  from run obtain candidates where
    cands: "search_hybrid iter fts knn query embedding rerank_top_k 60 1 1 = Inr candidates"
    by (cases "search_hybrid iter fts knn query embedding rerank_top_k 60 1 1")
       (simp_all add: search_hybrid_reranked_def)
  define scores where "scores = rerank query (map r_content candidates)"
  let ?att = "attach_scores candidates scores"
  let ?ss = "py_sort_desc rerank_score ?att"
  let ?out = "assign_ranks limit ?ss"
  have att_nil: "attach_scores [] scores = []" by (simp add: attach_scores_def)
  have nil: "candidates = [] \<Longrightarrow> ?out = []"
    by (simp add: att_nil py_sort_desc_def assign_ranks_Nil)
  have len: "length candidates \<le> length scores"
  proof (cases "candidates = []")
    case True
    then show ?thesis by simp
  next
    case False
    show ?thesis
    proof (rule ccontr)
      assume "\<not> length candidates \<le> length scores"
      then have "length scores < length candidates" by simp
      with False have "fst (search_hybrid_reranked iter fts knn rerank query embedding limit rerank_top_k) = Inl KeyError"
        by (simp add: search_hybrid_reranked_def cands Let_def scores_def)
      with run show False by simp
    qed
  qed
  have o: "out = ?out" and c: "calls = (if candidates = [] then [] else [(query, map r_content candidates)])"
  proof -
    have "search_hybrid_reranked iter fts knn rerank query embedding limit rerank_top_k =
            (Inr ?out, if candidates = [] then [] else [(query, map r_content candidates)])"
    proof (cases "candidates = []")
      case True
      with nil show ?thesis by (simp add: search_hybrid_reranked_def cands)
    next
      case False
      then show ?thesis
        using len by (simp add: search_hybrid_reranked_def cands Let_def scores_def [symmetric])
    qed
    with run show "out = ?out"
      and "calls = (if candidates = [] then [] else [(query, map r_content candidates)])"
      by simp_all
  qed
  have c1: "0 \<le> limit \<longrightarrow> length out \<le> nat limit"
    unfolding o by (rule impI) (rule length_assign_ranks)
  have c2: "map r_rank out = map fst (py_enumerate 1 out)" unfolding o by (rule assign_ranks_ranks)
  have "sorted_wrt (\<lambda>a b. rerank_score b \<le> rerank_score a) ?ss" by (rule py_sort_desc_sorted)
  then have c3: "sorted_wrt (\<lambda>a b. rerank_score b \<le> rerank_score a) out"
    unfolding o by (rule sorted_wrt_assign_ranks) simp
  have "map r_rank ?att = map r_rank candidates" using len by (rule ranks_attach_scores)
  also have "\<dots> = map fst (py_enumerate 1 candidates)" using cands by (rule search_hybrid_ranks)
  also have "\<dots> = map fst (py_enumerate 1 ?att)"
    by (rule fst_enumerate_length) (simp add: length_attach_scores len)
  finally have "sorted_wrt (\<lambda>a b. r_rank a < r_rank b) ?att" by (rule ranks_increasing)
  then have c4: "sorted_wrt (\<lambda>a b. rerank_score b < rerank_score a \<or>
                               (rerank_score a = rerank_score b \<and> r_rank a < r_rank b)) ?ss"
    by (rule py_sort_desc_lex)
  have c5: "rerank_top_k = 0 \<longrightarrow> candidates = []"
    using cands by (auto dest: search_hybrid_limit_zero)
  have c6: "candidates = [] \<longrightarrow> out = [] \<and> calls = []"
    unfolding o c using nil by simp
  have c7: "candidates \<noteq> [] \<longrightarrow>
              calls = [(query, map r_content candidates)] \<and> length candidates \<le> length scores"
    unfolding c using len by simp
  from cands scores_def o c1 c2 c3 c4 c5 c6 c7 show ?thesis
    by (intro exI [of _ candidates] exI [of _ scores] conjI)
qed

lemmas run_all_defs = run_defs example_defs search_hybrid_reranked_def attach_scores_def

text \<open>The hypotheses of \<open>search_hybrid_rrf\<close> hold for the example engine.\<close>

theorem search_hybrid_rrf_witness:
  "search_hybrid example_iter example_fts example_knn ''quick fox'' zero_vec 2 60 1 1 =
     Inr [\<lparr>r_id = 3, r_source = ''b.md'', r_chunk_index = 0, r_content = ''lazy dog'',
            r_metadata = ''{}'', r_score = Some (- 1), r_distance = None, r_rank = 1,
            rrf_score = 123 / 3782, bm25_rank = Some 2, vec_rank = Some 1\<rparr>,
          \<lparr>r_id = 5, r_source = ''a.md'', r_chunk_index = 0, r_content = ''quick fox'',
            r_metadata = ''{}'', r_score = Some (- 2), r_distance = None, r_rank = (2::int),
            rrf_score = 123 / 3782, bm25_rank = Some (1::int), vec_rank = Some (2::int)\<rparr>] \<and>
   search_bm25 example_fts ''quick fox'' (2 * 3) =
     Inr [\<lparr>r_id = 5, r_source = ''a.md'', r_chunk_index = 0, r_content = ''quick fox'',
            r_metadata = ''{}'', r_score = Some (- 2), r_distance = None, r_rank = 1\<rparr>,
          \<lparr>r_id = 3, r_source = ''b.md'', r_chunk_index = 0, r_content = ''lazy dog'',
            r_metadata = ''{}'', r_score = Some (- 1), r_distance = None, r_rank = (2::int)\<rparr>] \<and>
   search_vector example_knn zero_vec (2 * 3) =
     Inr [\<lparr>r_id = 3, r_source = ''b.md'', r_chunk_index = 0, r_content = ''lazy dog'',
            r_metadata = ''{}'', r_score = None, r_distance = Some (1 / 4), r_rank = 1\<rparr>,
          \<lparr>r_id = 5, r_source = ''a.md'', r_chunk_index = 0, r_content = ''quick fox'',
            r_metadata = ''{}'', r_score = None, r_distance = Some (1 / 2), r_rank = (2::int)\<rparr>] \<and>
   example_iter {5, 3} = [3, 5] \<and>
   list_all (rrf_entry_ok
        [\<lparr>r_id = 5, r_source = ''a.md'', r_chunk_index = 0, r_content = ''quick fox'',
            r_metadata = ''{}'', r_score = Some (- 2), r_distance = None, r_rank = 1\<rparr>,
          \<lparr>r_id = 3, r_source = ''b.md'', r_chunk_index = 0, r_content = ''lazy dog'',
            r_metadata = ''{}'', r_score = Some (- 1), r_distance = None, r_rank = (2::int)\<rparr>]
        [\<lparr>r_id = 3, r_source = ''b.md'', r_chunk_index = 0, r_content = ''lazy dog'',
            r_metadata = ''{}'', r_score = None, r_distance = Some (1 / 4), r_rank = 1\<rparr>,
          \<lparr>r_id = 5, r_source = ''a.md'', r_chunk_index = 0, r_content = ''quick fox'',
            r_metadata = ''{}'', r_score = None, r_distance = Some (1 / 2), r_rank = (2::int)\<rparr>]
        (2 * 3) 60 1 1)
     [\<lparr>r_id = 3, r_source = ''b.md'', r_chunk_index = 0, r_content = ''lazy dog'',
            r_metadata = ''{}'', r_score = Some (- 1), r_distance = None, r_rank = 1,
            rrf_score = 123 / 3782, bm25_rank = Some 2, vec_rank = Some 1\<rparr>,
          \<lparr>r_id = 5, r_source = ''a.md'', r_chunk_index = 0, r_content = ''quick fox'',
            r_metadata = ''{}'', r_score = Some (- 2), r_distance = None, r_rank = (2::int),
            rrf_score = 123 / 3782, bm25_rank = Some (1::int), vec_rank = Some (2::int)\<rparr>] \<and>
   (\<exists>rs. rrf_results example_iter
        [\<lparr>r_id = 5, r_source = ''a.md'', r_chunk_index = 0, r_content = ''quick fox'',
            r_metadata = ''{}'', r_score = Some (- 2), r_distance = None, r_rank = 1\<rparr>,
          \<lparr>r_id = 3, r_source = ''b.md'', r_chunk_index = 0, r_content = ''lazy dog'',
            r_metadata = ''{}'', r_score = Some (- 1), r_distance = None, r_rank = (2::int)\<rparr>]
        [\<lparr>r_id = 3, r_source = ''b.md'', r_chunk_index = 0, r_content = ''lazy dog'',
            r_metadata = ''{}'', r_score = None, r_distance = Some (1 / 4), r_rank = 1\<rparr>,
          \<lparr>r_id = 5, r_source = ''a.md'', r_chunk_index = 0, r_content = ''quick fox'',
            r_metadata = ''{}'', r_score = None, r_distance = Some (1 / 2), r_rank = (2::int)\<rparr>]
        (2 * 3) 60 1 1 = Inr rs \<and>
      set (map r_id rs) = {5, 3} \<and> distinct (map r_id rs) \<and>
      [\<lparr>r_id = 3, r_source = ''b.md'', r_chunk_index = 0, r_content = ''lazy dog'',
            r_metadata = ''{}'', r_score = Some (- 1), r_distance = None, r_rank = 1,
            rrf_score = 123 / 3782, bm25_rank = Some 2, vec_rank = Some 1\<rparr>,
          \<lparr>r_id = 5, r_source = ''a.md'', r_chunk_index = 0, r_content = ''quick fox'',
            r_metadata = ''{}'', r_score = Some (- 2), r_distance = None, r_rank = (2::int),
            rrf_score = 123 / 3782, bm25_rank = Some (1::int), vec_rank = Some (2::int)\<rparr>] = assign_ranks 2 (py_sort_desc rrf_score rs)) \<and>
   (0 :: int) \<le> 2 \<and>
   length [\<lparr>r_id = 5, r_source = ''a.md'', r_chunk_index = 0, r_content = ''quick fox'',
            r_metadata = ''{}'', r_score = Some (- 2), r_distance = None, r_rank = 1\<rparr>,
          \<lparr>r_id = 3, r_source = ''b.md'', r_chunk_index = 0, r_content = ''lazy dog'',
            r_metadata = ''{}'', r_score = Some (- 1), r_distance = None, r_rank = (2::int)\<rparr>] \<le> nat (2 * 3)"
proof -
  let ?out = "[\<lparr>r_id = 3, r_source = ''b.md'', r_chunk_index = 0, r_content = ''lazy dog'',
            r_metadata = ''{}'', r_score = Some (- 1), r_distance = None, r_rank = 1,
            rrf_score = 123 / 3782, bm25_rank = Some 2, vec_rank = Some 1\<rparr>,
          \<lparr>r_id = 5, r_source = ''a.md'', r_chunk_index = 0, r_content = ''quick fox'',
            r_metadata = ''{}'', r_score = Some (- 2), r_distance = None, r_rank = (2::int),
            rrf_score = 123 / 3782, bm25_rank = Some (1::int), vec_rank = Some (2::int)\<rparr>]"
  let ?B = "[\<lparr>r_id = 5, r_source = ''a.md'', r_chunk_index = 0, r_content = ''quick fox'',
            r_metadata = ''{}'', r_score = Some (- 2), r_distance = None, r_rank = 1\<rparr>,
          \<lparr>r_id = 3, r_source = ''b.md'', r_chunk_index = 0, r_content = ''lazy dog'',
            r_metadata = ''{}'', r_score = Some (- 1), r_distance = None, r_rank = (2::int)\<rparr>]"
  let ?V = "[\<lparr>r_id = 3, r_source = ''b.md'', r_chunk_index = 0, r_content = ''lazy dog'',
            r_metadata = ''{}'', r_score = None, r_distance = Some (1 / 4), r_rank = 1\<rparr>,
          \<lparr>r_id = 5, r_source = ''a.md'', r_chunk_index = 0, r_content = ''quick fox'',
            r_metadata = ''{}'', r_score = None, r_distance = Some (1 / 2), r_rank = (2::int)\<rparr>]"
  let ?S = "set (map r_id ?B) \<union> set (map r_id ?V)"
  have ho: "search_hybrid example_iter example_fts example_knn ''quick fox'' zero_vec 2 60 1 1 = Inr ?out"
    by (simp add: run_all_defs)
  have hB: "search_bm25 example_fts ''quick fox'' (2 * 3) = Inr ?B" by (simp add: run_all_defs)
  have hV: "search_vector example_knn zero_vec (2 * 3) = Inr ?V" by (simp add: run_all_defs)
  have hS: "?S = {5, 3}" by auto
  have hi: "example_iter {5, 3} = [3, 5]" by (simp add: example_iter_def)
  have dB: "distinct (map r_id ?B)" by simp
  have dV: "distinct (map r_id ?V)" by simp
  have i1: "set (example_iter ?S) = ?S" unfolding hS hi by auto
  have i2: "distinct (example_iter ?S)" unfolding hS hi by simp
  have h2: "(0::int) \<le> 2" by simp
  from search_hybrid_rrf [OF ho hB hV dB dV refl i1 i2]
  obtain rs where
    a: "rrf_results example_iter ?B ?V (2 * 3) 60 1 1 = Inr rs"
    and b: "set (map r_id rs) = ?S" "distinct (map r_id rs)"
    and c: "?out = assign_ranks 2 (py_sort_desc rrf_score rs)"
    and d: "list_all (rrf_entry_ok ?B ?V (2 * 3) 60 1 1) ?out"
    and e: "(0::int) \<le> 2 \<longrightarrow> length ?B \<le> nat (2 * 3)"
    by blast
  from b(1) have b': "set (map r_id rs) = {5, 3}" unfolding hS .
  from e h2 have e': "length ?B \<le> nat (2 * 3)" by (rule mp)
  have x: "\<exists>rs. rrf_results example_iter ?B ?V (2 * 3) 60 1 1 = Inr rs \<and>
      set (map r_id rs) = {5, 3} \<and> distinct (map r_id rs) \<and>
      ?out = assign_ranks 2 (py_sort_desc rrf_score rs)"
    using a b' b(2) c by (intro exI [of _ rs] conjI)
  from ho hB hV hi d x h2 e' show ?thesis by (intro conjI)
qed

text \<open>
  C3 as stated fails for \<open>k = -1\<close>: the id 3 has rank 1 on the vector path, the
  divisor \<open>k + vec_rank\<close> is zero, and the call raises instead of scoring.
\<close>

theorem search_hybrid_zero_division:
  "search_hybrid example_iter example_fts example_knn ''quick fox'' zero_vec 2 (- 1) 1 1
     = Inl ZeroDivisionError"
  by (simp add: run_all_defs)

text \<open>The hypotheses of \<open>search_hybrid_order\<close> hold for the example engine.\<close>

theorem search_hybrid_order_witness:
  "search_hybrid example_iter example_fts example_knn ''quick fox'' zero_vec 2 60 1 1 =
     Inr [\<lparr>r_id = 3, r_source = ''b.md'', r_chunk_index = 0, r_content = ''lazy dog'',
            r_metadata = ''{}'', r_score = Some (- 1), r_distance = None, r_rank = 1,
            rrf_score = 123 / 3782, bm25_rank = Some 2, vec_rank = Some 1\<rparr>,
          \<lparr>r_id = 5, r_source = ''a.md'', r_chunk_index = 0, r_content = ''quick fox'',
            r_metadata = ''{}'', r_score = Some (- 2), r_distance = None, r_rank = 2,
            rrf_score = 123 / 3782, bm25_rank = Some 1, vec_rank = Some 2\<rparr>] \<and>
   search_vector example_knn zero_vec (2 * 3) =
     Inr [\<lparr>r_id = 3, r_source = ''b.md'', r_chunk_index = 0, r_content = ''lazy dog'',
            r_metadata = ''{}'', r_score = None, r_distance = Some (1 / 4), r_rank = 1\<rparr>,
          \<lparr>r_id = 5, r_source = ''a.md'', r_chunk_index = 0, r_content = ''quick fox'',
            r_metadata = ''{}'', r_score = None, r_distance = Some (1 / 2), r_rank = 2\<rparr>] \<and>
   sorted_wrt (\<lambda>a b. rrf_score b \<le> rrf_score a)
     [\<lparr>r_id = 3, r_source = ''b.md'', r_chunk_index = 0, r_content = ''lazy dog'',
            r_metadata = ''{}'', r_score = Some (- 1), r_distance = None, r_rank = 1,
            rrf_score = 123 / 3782, bm25_rank = Some 2, vec_rank = Some 1\<rparr>,
          \<lparr>r_id = 5, r_source = ''a.md'', r_chunk_index = 0, r_content = ''quick fox'',
            r_metadata = ''{}'', r_score = Some (- 2), r_distance = None, r_rank = (2::int),
            rrf_score = 123 / 3782, bm25_rank = Some (1::int), vec_rank = Some (2::int)\<rparr>]"
proof -
  let ?out = "[\<lparr>r_id = 3, r_source = ''b.md'', r_chunk_index = 0, r_content = ''lazy dog'',
            r_metadata = ''{}'', r_score = Some (- 1), r_distance = None, r_rank = 1,
            rrf_score = 123 / 3782, bm25_rank = Some 2, vec_rank = Some 1\<rparr>,
          \<lparr>r_id = 5, r_source = ''a.md'', r_chunk_index = 0, r_content = ''quick fox'',
            r_metadata = ''{}'', r_score = Some (- 2), r_distance = None, r_rank = (2::int),
            rrf_score = 123 / 3782, bm25_rank = Some (1::int), vec_rank = Some (2::int)\<rparr>]"
  let ?V = "[\<lparr>r_id = 3, r_source = ''b.md'', r_chunk_index = 0, r_content = ''lazy dog'',
            r_metadata = ''{}'', r_score = None, r_distance = Some (1 / 4), r_rank = 1\<rparr>,
          \<lparr>r_id = 5, r_source = ''a.md'', r_chunk_index = 0, r_content = ''quick fox'',
            r_metadata = ''{}'', r_score = None, r_distance = Some (1 / 2), r_rank = (2::int)\<rparr>]"
  have h1: "search_hybrid example_iter example_fts example_knn ''quick fox'' zero_vec 2 60 1 1 = Inr ?out"
    by (simp add: run_all_defs)
  have h2: "search_vector example_knn zero_vec (2 * 3) = Inr ?V" by (simp add: run_all_defs)
  have h3: "search_bm25 example_fts ''quick fox'' (2 * 3) = Inr [\<lparr>r_id = 5, r_source = ''a.md'', r_chunk_index = 0, r_content = ''quick fox'',
            r_metadata = ''{}'', r_score = Some (- 2), r_distance = None, r_rank = 1\<rparr>,
          \<lparr>r_id = 3, r_source = ''b.md'', r_chunk_index = 0, r_content = ''lazy dog'',
            r_metadata = ''{}'', r_score = Some (- 1), r_distance = None, r_rank = (2::int)\<rparr>]" by (simp add: run_all_defs)
  from search_hybrid_order [where iter' = example_iter, OF h1 h3 h2 refl]
  have "sorted_wrt (\<lambda>a b. rrf_score b \<le> rrf_score a) ?out" by (rule conjunct1)
  with h1 h2 show ?thesis by (intro conjI)
qed

text \<open>
  C4 as stated fails. Both records have the score \<open>1/61 + 1/62\<close>. In the first run the
  ids are enumerated as 3, 5 and the result lists 3 before 5, although 5 has the
  smaller \<open>bm25_rank\<close>. The second run exchanges the records and the enumeration, and
  the result lists 5 before 3, although there 3 has the smaller \<open>bm25_rank\<close>: whichever
  way the set is enumerated, one of the two inputs breaks the tie-break of the claim.
\<close>

theorem search_hybrid_tie_order:
  "search_hybrid example_iter example_fts example_knn ''quick fox'' zero_vec 2 60 1 1 =
     Inr [\<lparr>r_id = 3, r_source = ''b.md'', r_chunk_index = 0, r_content = ''lazy dog'',
            r_metadata = ''{}'', r_score = Some (- 1), r_distance = None, r_rank = 1,
            rrf_score = 123 / 3782, bm25_rank = Some 2, vec_rank = Some 1\<rparr>,
          \<lparr>r_id = 5, r_source = ''a.md'', r_chunk_index = 0, r_content = ''quick fox'',
            r_metadata = ''{}'', r_score = Some (- 2), r_distance = None, r_rank = 2,
            rrf_score = 123 / 3782, bm25_rank = Some 1, vec_rank = Some 2\<rparr>] \<and>
   \<not> sorted_wrt (spec_before 7)
     [\<lparr>r_id = 3, r_source = ''b.md'', r_chunk_index = 0, r_content = ''lazy dog'',
            r_metadata = ''{}'', r_score = Some (- 1), r_distance = None, r_rank = 1,
            rrf_score = 123 / 3782, bm25_rank = Some 2, vec_rank = Some 1\<rparr>,
          \<lparr>r_id = 5, r_source = ''a.md'', r_chunk_index = 0, r_content = ''quick fox'',
            r_metadata = ''{}'', r_score = Some (- 2), r_distance = None, r_rank = 2,
            rrf_score = 123 / 3782, bm25_rank = Some 1, vec_rank = Some 2\<rparr>] \<and>
   search_hybrid swapped_iter swapped_fts swapped_knn ''quick fox'' zero_vec 2 60 1 1 =
     Inr [\<lparr>r_id = 5, r_source = ''a.md'', r_chunk_index = 0, r_content = ''quick fox'',
            r_metadata = ''{}'', r_score = Some (- 1), r_distance = None, r_rank = 1,
            rrf_score = 123 / 3782, bm25_rank = Some 2, vec_rank = Some 1\<rparr>,
          \<lparr>r_id = 3, r_source = ''b.md'', r_chunk_index = 0, r_content = ''lazy dog'',
            r_metadata = ''{}'', r_score = Some (- 2), r_distance = None, r_rank = 2,
            rrf_score = 123 / 3782, bm25_rank = Some 1, vec_rank = Some 2\<rparr>] \<and>
   \<not> sorted_wrt (spec_before 7)
     [\<lparr>r_id = 5, r_source = ''a.md'', r_chunk_index = 0, r_content = ''quick fox'',
            r_metadata = ''{}'', r_score = Some (- 1), r_distance = None, r_rank = 1,
            rrf_score = 123 / 3782, bm25_rank = Some 2, vec_rank = Some 1\<rparr>,
          \<lparr>r_id = 3, r_source = ''b.md'', r_chunk_index = 0, r_content = ''lazy dog'',
            r_metadata = ''{}'', r_score = Some (- 2), r_distance = None, r_rank = 2,
            rrf_score = 123 / 3782, bm25_rank = Some 1, vec_rank = Some 2\<rparr>]"
  by (simp add: run_all_defs spec_before_def)

text \<open>
  The hypothesis of \<open>search_hybrid_reranked_result\<close> holds for the example engine, with
  two candidates and with \<open>rerank_top_k = 0\<close>.
\<close>

theorem search_hybrid_reranked_result_witness:
  "search_hybrid_reranked example_iter example_fts example_knn example_rerank ''quick fox'' zero_vec 2 20
     = (Inr [\<lparr>r_id = 3, r_source = ''b.md'', r_chunk_index = 0, r_content = ''lazy dog'',
             r_metadata = ''{}'', r_score = Some (- 1), r_distance = None, r_rank = 1,
             rrf_score = 123 / 3782, bm25_rank = Some 2, vec_rank = Some 1, rerank_score = 1\<rparr>,
           \<lparr>r_id = 5, r_source = ''a.md'', r_chunk_index = 0, r_content = ''quick fox'',
             r_metadata = ''{}'', r_score = Some (- 2), r_distance = None, r_rank = (2::int),
             rrf_score = 123 / 3782, bm25_rank = Some (1::int), vec_rank = Some (2::int),
             rerank_score = (1::real)\<rparr>],
        [(''quick fox'', [''lazy dog'', ''quick fox''])]) \<and>
   (0 :: int) \<le> 2 \<and>
   length [\<lparr>r_id = 3, r_source = ''b.md'', r_chunk_index = 0, r_content = ''lazy dog'',
             r_metadata = ''{}'', r_score = Some (- 1), r_distance = None, r_rank = 1,
             rrf_score = 123 / 3782, bm25_rank = Some 2, vec_rank = Some 1, rerank_score = 1\<rparr>,
           \<lparr>r_id = 5, r_source = ''a.md'', r_chunk_index = 0, r_content = ''quick fox'',
             r_metadata = ''{}'', r_score = Some (- 2), r_distance = None, r_rank = (2::int),
             rrf_score = 123 / 3782, bm25_rank = Some (1::int), vec_rank = Some (2::int),
             rerank_score = (1::real)\<rparr>] \<le> nat 2 \<and>
   map r_rank [\<lparr>r_id = 3, r_source = ''b.md'', r_chunk_index = 0, r_content = ''lazy dog'',
             r_metadata = ''{}'', r_score = Some (- 1), r_distance = None, r_rank = 1,
             rrf_score = 123 / 3782, bm25_rank = Some 2, vec_rank = Some 1, rerank_score = 1\<rparr>,
           \<lparr>r_id = 5, r_source = ''a.md'', r_chunk_index = 0, r_content = ''quick fox'',
             r_metadata = ''{}'', r_score = Some (- 2), r_distance = None, r_rank = (2::int),
             rrf_score = 123 / 3782, bm25_rank = Some (1::int), vec_rank = Some (2::int),
             rerank_score = (1::real)\<rparr>] = [1, 2] \<and>
   sorted_wrt (\<lambda>a b. rerank_score b \<le> rerank_score a)
     [\<lparr>r_id = 3, r_source = ''b.md'', r_chunk_index = 0, r_content = ''lazy dog'',
             r_metadata = ''{}'', r_score = Some (- 1), r_distance = None, r_rank = 1,
             rrf_score = 123 / 3782, bm25_rank = Some 2, vec_rank = Some 1, rerank_score = 1\<rparr>,
           \<lparr>r_id = 5, r_source = ''a.md'', r_chunk_index = 0, r_content = ''quick fox'',
             r_metadata = ''{}'', r_score = Some (- 2), r_distance = None, r_rank = (2::int),
             rrf_score = 123 / 3782, bm25_rank = Some (1::int), vec_rank = Some (2::int),
             rerank_score = (1::real)\<rparr>] \<and>
   search_hybrid example_iter example_fts example_knn ''quick fox'' zero_vec 20 60 1 1 =
     Inr [\<lparr>r_id = 3, r_source = ''b.md'', r_chunk_index = 0, r_content = ''lazy dog'',
            r_metadata = ''{}'', r_score = Some (- 1), r_distance = None, r_rank = 1,
            rrf_score = 123 / 3782, bm25_rank = Some 2, vec_rank = Some 1\<rparr>,
          \<lparr>r_id = 5, r_source = ''a.md'', r_chunk_index = 0, r_content = ''quick fox'',
            r_metadata = ''{}'', r_score = Some (- 2), r_distance = None, r_rank = (2::int),
            rrf_score = 123 / 3782, bm25_rank = Some (1::int), vec_rank = Some (2::int)\<rparr>] \<and>
   search_hybrid_reranked example_iter example_fts example_knn example_rerank ''quick fox'' zero_vec 2 0
     = (Inr [], []) \<and>
   search_hybrid example_iter example_fts example_knn ''quick fox'' zero_vec 0 60 1 1 = Inr []"
proof -
  let ?out = "[\<lparr>r_id = 3, r_source = ''b.md'', r_chunk_index = 0, r_content = ''lazy dog'',
             r_metadata = ''{}'', r_score = Some (- 1), r_distance = None, r_rank = 1,
             rrf_score = 123 / 3782, bm25_rank = Some 2, vec_rank = Some 1, rerank_score = 1\<rparr>,
           \<lparr>r_id = 5, r_source = ''a.md'', r_chunk_index = 0, r_content = ''quick fox'',
             r_metadata = ''{}'', r_score = Some (- 2), r_distance = None, r_rank = (2::int),
             rrf_score = 123 / 3782, bm25_rank = Some (1::int), vec_rank = Some (2::int),
             rerank_score = (1::real)\<rparr>]"
  let ?c = "[\<lparr>r_id = 3, r_source = ''b.md'', r_chunk_index = 0, r_content = ''lazy dog'',
            r_metadata = ''{}'', r_score = Some (- 1), r_distance = None, r_rank = 1,
            rrf_score = 123 / 3782, bm25_rank = Some 2, vec_rank = Some 1\<rparr>,
          \<lparr>r_id = 5, r_source = ''a.md'', r_chunk_index = 0, r_content = ''quick fox'',
            r_metadata = ''{}'', r_score = Some (- 2), r_distance = None, r_rank = (2::int),
            rrf_score = 123 / 3782, bm25_rank = Some (1::int), vec_rank = Some (2::int)\<rparr>]"
  have h1: "(0::int) \<le> 2" by simp
  have h2: "search_hybrid example_iter example_fts example_knn ''quick fox'' zero_vec 20 60 1 1 = Inr ?c"
    by (simp add: run_all_defs)
  have r: "search_hybrid_reranked example_iter example_fts example_knn example_rerank ''quick fox'' zero_vec 2 20
     = (Inr ?out, [(''quick fox'', [''lazy dog'', ''quick fox''])])"
    unfolding search_hybrid_reranked_def h2
    by (simp add: example_rerank_def attach_scores_def assign_ranks_def py_sort_desc_def py_slice_to_def)
  have z1: "search_hybrid example_iter example_fts example_knn ''quick fox'' zero_vec 0 60 1 1 = Inr []"
    by (simp add: run_all_defs)
  have z: "search_hybrid_reranked example_iter example_fts example_knn example_rerank ''quick fox'' zero_vec 2 0
     = (Inr [], [])"
    unfolding search_hybrid_reranked_def z1 by simp
  from search_hybrid_reranked_result [OF r] h1
  have b: "length ?out \<le> nat 2" "map r_rank ?out = map fst (py_enumerate 1 ?out)"
      "sorted_wrt (\<lambda>a b. rerank_score b \<le> rerank_score a) ?out"
    by blast+
  from b(2) have b2: "map r_rank ?out = [1, 2]" by simp
  from search_hybrid_reranked_result [OF z]
  have "\<exists>candidates. search_hybrid example_iter example_fts example_knn ''quick fox'' zero_vec 0 60 1 1
          = Inr candidates \<and> candidates = []"
    by blast
  then have z1': "search_hybrid example_iter example_fts example_knn ''quick fox'' zero_vec 0 60 1 1 = Inr []"
    by blast
  from r h1 b(1) b2 b(3) h2 z z1' show ?thesis by (intro conjI)
qed

text \<open>
  C5 as stated fails for the query \<^verbatim>\<open>what?\<close>: FTS5 rejects it, the hybrid search raises,
  and \<open>search_hybrid_reranked\<close> returns no list at all. The reranker is not called.
\<close>

theorem search_hybrid_reranked_raises:
  "search_hybrid_reranked example_iter example_fts example_knn example_rerank ''what?'' zero_vec 2 20 =
     (Inl (SqlError Fts5SyntaxError), [])"
  by (simp add: run_all_defs)

section \<open>Properties of the model manager\<close>

lemmas mgr_defs = load_model_def load_model_sync_def schedule_unload_def unload_model_def is_loaded_def pinned_def
  evictable_def evict_slot_def get_memory_usage_def estimate_model_memory_def touch_and_move_to_end_def
  delayed_unload_def wake_unload_task_def example_config_def example_manager_def example_usage_def Let_def

subsection \<open>Unloading and the status\<close>

lemma evict_lru_unload: "evict_slot st = Some e \<Longrightarrow> unload_model st e = evict_lru st"
  by (simp add: unload_model_evict_slot evict_lru_def)

lemma evict_lru_None: "evict_slot st = None \<Longrightarrow> evict_lru st = st"
  by (simp add: evict_lru_def)

lemma evict_lru_fields:
  "models_config (evict_lru st) = models_config st"
  "max_ram_mb (evict_lru st) = max_ram_mb st"
  "unload_tasks (evict_lru st) = unload_tasks st"
  by (simp_all add: evict_lru_def split: option.splits)

lemma funpow_evict_lru_fields:
  "models_config ((evict_lru ^^ n) st) = models_config st"
  "max_ram_mb ((evict_lru ^^ n) st) = max_ram_mb st"
  "unload_tasks ((evict_lru ^^ n) st) = unload_tasks st"
  by (induction n) (simp_all add: evict_lru_fields)

lemma ensure_funpow:
  "\<exists>n. ensure_memory_budget usage st s = (evict_lru ^^ n) st \<and>
       (\<forall>j<n. over_budget usage ((evict_lru ^^ j) st) s \<and> evict_slot ((evict_lru ^^ j) st) \<noteq> None) \<and>
       (\<not> over_budget usage (ensure_memory_budget usage st s) s \<or>
        evict_slot (ensure_memory_budget usage st s) = None)"
proof (induction usage st s rule: ensure_memory_budget.induct)
  case (1 usage st s)
  show ?case
  proof (cases "over_budget usage st s \<and> models st \<noteq> []")
    case False
    then have e: "ensure_memory_budget usage st s = st"
      by (subst ensure_memory_budget.simps) (auto simp: over_budget_def)
    have "\<not> over_budget usage st s \<or> evict_slot st = None"
      using False by (auto simp: evict_slot_def)
    then show ?thesis unfolding e by (intro exI [of _ 0]) simp
  next
    case True
    show ?thesis
    proof (cases "evict_slot st")
      case None
      with True have e: "ensure_memory_budget usage st s = st"
        by (subst ensure_memory_budget.simps) (auto simp: over_budget_def)
      show ?thesis unfolding e using None by (intro exI [of _ 0]) simp
    next
      case (Some e)
      with True have step: "ensure_memory_budget usage st s = ensure_memory_budget usage (evict_lru st) s"
        by (subst ensure_memory_budget.simps) (auto simp: over_budget_def evict_lru_unload)
      from True have c: "real_of_int (max_ram_mb st) < get_memory_usage usage st + estimate_model_memory s \<and> models st \<noteq> []"
        by (simp add: over_budget_def)
      from "1.IH" [OF c Some] obtain n where
        n: "ensure_memory_budget usage (unload_model st e) s = (evict_lru ^^ n) (unload_model st e)"
        and all: "\<forall>j<n. over_budget usage ((evict_lru ^^ j) (unload_model st e)) s \<and>
                    evict_slot ((evict_lru ^^ j) (unload_model st e)) \<noteq> None"
        and fin: "\<not> over_budget usage (ensure_memory_budget usage (unload_model st e) s) s \<or>
                  evict_slot (ensure_memory_budget usage (unload_model st e) s) = None"
        by blast
      have u: "unload_model st e = evict_lru st" using Some by (rule evict_lru_unload)
      have a: "ensure_memory_budget usage st s = (evict_lru ^^ Suc n) st"
        using n by (simp add: step u funpow_swap1)
      have b: "over_budget usage ((evict_lru ^^ j) st) s \<and> evict_slot ((evict_lru ^^ j) st) \<noteq> None"
        if "j < Suc n" for j
      proof (cases j)
        case 0
        with True Some show ?thesis by simp
      next
        case (Suc j')
        with that have "j' < n" by simp
        with all have "over_budget usage ((evict_lru ^^ j') (evict_lru st)) s \<and>
                    evict_slot ((evict_lru ^^ j') (evict_lru st)) \<noteq> None"
          unfolding u by blast
        then show ?thesis by (simp add: Suc funpow_swap1)
      qed
      from fin have c': "\<not> over_budget usage (ensure_memory_budget usage st s) s \<or>
                  evict_slot (ensure_memory_budget usage st s) = None"
        by (simp add: step u)
      from a b c' show ?thesis by blast
    qed
  qed
qed

subsection \<open>What eviction keeps\<close>

lemma evictable_evict_lru: "evictable (evict_lru st) = evictable st"
  by (rule ext) (simp add: evictable_def evict_lru_fields)

lemma evictable_funpow: "evictable ((evict_lru ^^ n) st) = evictable st"
  by (rule ext) (simp add: evictable_def funpow_evict_lru_fields)

lemma evict_lru_keeps:
  assumes "p \<in> set (models st)" "\<not> evictable st (fst p)"
  shows "p \<in> set (models (evict_lru st))"
proof (cases "evict_slot st")
  case None
  with assms(1) show ?thesis by (simp add: evict_lru_None)
next
  case (Some e)
  then have "evictable st e" by (auto dest: evict_slot_Some)
  with assms(2) have "fst p \<noteq> e" by auto
  with assms(1) Some show ?thesis by (cases p) (auto simp: evict_lru_def AList.delete_eq)
qed

lemma funpow_evict_lru_keeps:
  "p \<in> set (models st) \<Longrightarrow> \<not> evictable st (fst p) \<Longrightarrow> p \<in> set (models ((evict_lru ^^ n) st))"
proof (induction n)
  case 0
  then show ?case by simp
next
  case (Suc n)
  then have "p \<in> set (models ((evict_lru ^^ n) st))" by simp
  moreover have "\<not> evictable ((evict_lru ^^ n) st) (fst p)"
    using Suc.prems(2) by (simp add: evictable_funpow)
  ultimately show ?case by (simp add: evict_lru_keeps)
qed

lemma evict_lru_subset: "set (models (evict_lru st)) \<subseteq> set (models st)"
  by (auto simp: evict_lru_def AList.delete_eq split: option.splits)

lemma funpow_evict_lru_subset: "set (models ((evict_lru ^^ n) st)) \<subseteq> set (models st)"
proof (induction n)
  case 0
  then show ?case by simp
next
  case (Suc n)
  have "set (models (evict_lru ((evict_lru ^^ n) st))) \<subseteq> set (models ((evict_lru ^^ n) st))"
    by (rule evict_lru_subset)
  with Suc show ?case by simp
qed

subsection \<open>The budget loop does not look at the tasks\<close>

lemma ensure_tasks:
  "ensure_memory_budget usage (st\<lparr>unload_tasks := t\<rparr>) s =
     (ensure_memory_budget usage st s)\<lparr>unload_tasks := t\<rparr>"
proof (induction usage st s rule: ensure_memory_budget.induct)
  case (1 usage st s)
  have ev: "evict_slot (st\<lparr>unload_tasks := t\<rparr>) = evict_slot st"
    by (simp add: evict_slot_def evictable_def [abs_def])
  have un: "unload_model (st\<lparr>unload_tasks := t\<rparr>) e = (unload_model st e)\<lparr>unload_tasks := t\<rparr>" for e
    by (simp add: unload_model_def is_loaded_def pinned_def)
  show ?case
  proof (cases "real_of_int (max_ram_mb st) < get_memory_usage usage st + estimate_model_memory s \<and> models st \<noteq> []")
    case False
    then show ?thesis
      by (subst ensure_memory_budget.simps, subst (2) ensure_memory_budget.simps)
         (auto simp: get_memory_usage_def)
  next
    case True
    show ?thesis
    proof (cases "evict_slot st")
      case None
      with True show ?thesis
        by (subst ensure_memory_budget.simps, subst (2) ensure_memory_budget.simps)
           (auto simp: get_memory_usage_def ev)
    next
      case (Some e)
      from "1.IH" [OF True Some] True Some show ?thesis
        by (subst ensure_memory_budget.simps, subst (2) ensure_memory_budget.simps)
           (auto simp: get_memory_usage_def ev un)
    qed
  qed
qed

lemma ensure_fields:
  "models_config (ensure_memory_budget usage st s) = models_config st"
  "max_ram_mb (ensure_memory_budget usage st s) = max_ram_mb st"
  "unload_tasks (ensure_memory_budget usage st s) = unload_tasks st"
  using ensure_funpow [of usage st s] by (auto simp: funpow_evict_lru_fields)

lemma ensure_subset: "set (models (ensure_memory_budget usage st s)) \<subseteq> set (models st)"
  using ensure_funpow [of usage st s] funpow_evict_lru_subset by metis

lemma load_model_sync_config:
  "models_config st' = models_config st \<Longrightarrow> load_model_sync available st' s = load_model_sync available st s"
  by (simp add: load_model_sync_def)

subsection \<open>Loading\<close>

lemma schedule_unload_fields:
  "models (schedule_unload st s now) = models st"
  "models_config (schedule_unload st s now) = models_config st"
  "max_ram_mb (schedule_unload st s now) = max_ram_mb st"
  by (simp_all add: schedule_unload_def split: option.splits)

lemma load_model_miss:
  assumes "map_of (models st) s = None" "load_model_sync available st s = Inr inst"
  shows "\<exists>st'. load_model usage available st s now =
           (Inr \<lparr>slot = s, model_handle = inst, loaded_at = now, last_used = now,
                 memory_mb = estimate_model_memory s\<rparr>, st') \<and>
         models st' = models (ensure_memory_budget usage st s) @
           [(s, \<lparr>slot = s, model_handle = inst, loaded_at = now, last_used = now,
                 memory_mb = estimate_model_memory s\<rparr>)] \<and>
         models_config st' = models_config st \<and> max_ram_mb st' = max_ram_mb st"
proof -
  let ?st1 = "st\<lparr>unload_tasks := (unload_tasks st)(s := None)\<rparr>"
  let ?st2 = "ensure_memory_budget usage ?st1 s"
  have e: "?st2 = (ensure_memory_budget usage st s)\<lparr>unload_tasks := (unload_tasks st)(s := None)\<rparr>"
    by (rule ensure_tasks)
  have "models_config ?st2 = models_config st" unfolding e by (simp add: ensure_fields)
  then have "load_model_sync available ?st2 s = load_model_sync available st s"
    by (rule load_model_sync_config)
  then have l: "load_model_sync available ?st2 s = Inr inst"
    using assms(2) by (simp only:)
  let ?m = "\<lparr>slot = s, model_handle = inst, loaded_at = now, last_used = now,
                 memory_mb = estimate_model_memory s\<rparr>"
  let ?st' = "schedule_unload (?st2\<lparr>models := models ?st2 @ [(s, ?m)]\<rparr>) s now"
  have r: "load_model usage available st s now = (Inr ?m, ?st')"
    unfolding load_model_def Let_def by (simp only: assms(1) l option.case sum.case)
  have ms: "models ?st2 = models (ensure_memory_budget usage st s)"
    unfolding e by simp
  have a: "models ?st' = models (ensure_memory_budget usage st s) @ [(s, ?m)]"
    unfolding schedule_unload_fields by (simp add: ms)
  have b: "models_config ?st' = models_config st"
    unfolding schedule_unload_fields e by (simp add: ensure_fields)
  have c: "max_ram_mb ?st' = max_ram_mb st"
    unfolding schedule_unload_fields e by (simp add: ensure_fields)
  from r a b c show ?thesis by (intro exI [of _ ?st'] conjI)
qed

lemma load_model_miss_fail:
  assumes "map_of (models st) s = None" "load_model_sync available st s = Inl err"
  shows "fst (load_model usage available st s now) = Inl err"
proof -
  let ?st1 = "st\<lparr>unload_tasks := (unload_tasks st)(s := None)\<rparr>"
  let ?st2 = "ensure_memory_budget usage ?st1 s"
  have e: "?st2 = (ensure_memory_budget usage st s)\<lparr>unload_tasks := (unload_tasks st)(s := None)\<rparr>"
    by (rule ensure_tasks)
  have "models_config ?st2 = models_config st" unfolding e by (simp add: ensure_fields)
  then have "load_model_sync available ?st2 s = load_model_sync available st s"
    by (rule load_model_sync_config)
  then have l: "load_model_sync available ?st2 s = Inl err"
    using assms(2) by (simp only:)
  show ?thesis using assms(1) l by (simp add: load_model_def Let_def)
qed

lemma map_of_keys_None: "map_of ms s = None \<Longrightarrow> set ms' \<subseteq> set ms \<Longrightarrow> map_of ms' s = None"
  by (auto simp: map_of_eq_None_iff)

lemma load_model_loaded:
  assumes "load_model usage available st s now = (Inr m, st')"
  shows "map_of (models st') s = Some m \<and> last_used m = now \<and> models_config st' = models_config st"
proof (cases "map_of (models st) s")
  case (Some m0)
  with assms have m: "m = m0\<lparr>last_used := now\<rparr>"
    and st': "st' = st\<lparr>models := AList.delete s (models st) @ [(s, m0\<lparr>last_used := now\<rparr>)]\<rparr>"
    by (auto simp: load_model_def touch_and_move_to_end_def)
  have "map_of (AList.delete s (models st)) s = None" by (simp add: delete_conv')
  then show ?thesis by (simp add: m st' map_add_def)
next
  case None
  show ?thesis
  proof (cases "load_model_sync available st s")
    case (Inl err)
    from load_model_miss_fail [OF None Inl, of usage now] assms show ?thesis by simp
  next
    case (Inr inst)
    from load_model_miss [OF None Inr, of usage now] assms
    have m: "m = \<lparr>slot = s, model_handle = inst, loaded_at = now, last_used = now,
                 memory_mb = estimate_model_memory s\<rparr>"
      and ms: "models st' = models (ensure_memory_budget usage st s) @ [(s, m)]"
      and c: "models_config st' = models_config st"
      by auto
    have "map_of (models (ensure_memory_budget usage st s)) s = None"
      using None ensure_subset by (rule map_of_keys_None)
    then show ?thesis by (simp add: ms c map_add_def) (simp add: m)
  qed
qed

lemma map_of_map_values:
  "map_of (map (\<lambda>(k, v). (k, f v)) xs) k = map_option f (map_of xs k)"
  by (induction xs) auto

lemma status_lookup:
  "map_of (loaded_models (get_status usage st now)) s =
     map_option (\<lambda>m. \<lparr>st_loaded_at = loaded_at m, st_last_used = last_used m,
                       st_memory_mb = memory_mb m, idle_seconds = now - last_used m\<rparr>)
       (map_of (models st) s)"
  unfolding get_status_def by (simp add: map_of_map_values)

subsection \<open>Concrete runs of the manager\<close>

lemma example_load_reranker:
  "load_model example_usage all_available example_manager ''reranker'' 0 =
     (Inr \<lparr>slot = ''reranker'', model_handle = CrossEncoder ''cross-encoder/ms-marco-MiniLM-L-6-v2'',
           loaded_at = 0, last_used = 0, memory_mb = 90\<rparr>,
      \<lparr>models_config = example_config, max_ram_mb = 500,
        models = [(''reranker'', \<lparr>slot = ''reranker'',
                    model_handle = CrossEncoder ''cross-encoder/ms-marco-MiniLM-L-6-v2'',
                    loaded_at = 0, last_used = 0, memory_mb = 90\<rparr>)],
        unload_tasks = [''reranker'' \<mapsto> \<lparr>task_timeout = 300, task_started = 0, task_finished = False\<rparr>]\<rparr>)"
  by (simp add: mgr_defs all_available_def ensure_memory_budget.simps)

lemma example_load_embedder:
  "load_model example_usage all_available example_manager ''embedder'' 0 =
     (Inr \<lparr>slot = ''embedder'', model_handle = TextEmbedding ''BAAI/bge-base-en-v1.5'',
           loaded_at = 0, last_used = 0, memory_mb = 450\<rparr>,
      \<lparr>models_config = example_config, max_ram_mb = 500,
        models = [(''embedder'', \<lparr>slot = ''embedder'',
                    model_handle = TextEmbedding ''BAAI/bge-base-en-v1.5'',
                    loaded_at = 0, last_used = 0, memory_mb = 450\<rparr>)],
        unload_tasks = Map.empty\<rparr>)"
  by (simp add: mgr_defs all_available_def ensure_memory_budget.simps)

text \<open>
  C7. A run with the reranker on demand and an idle timeout of 300 seconds. The slot is
  loaded at the instant 0, which arms the task; it is used again at the instant 100,
  on the path of \<open>load_model\<close> that finds it loaded, which arms nothing. The task wakes
  at 300, finds the slot idle for 200 seconds only, and ends. From then on the slot has
  no task that is pending: it stays loaded at every later instant, however long it has
  been idle.
\<close>

theorem idle_unload_lost_after_touch:
  "(let st1 = snd (load_model example_usage all_available example_manager ''reranker'' 0);
        st2 = snd (load_model example_usage all_available st1 ''reranker'' 100);
        st3 = wake_unload_task st2 ''reranker'' 300
    in \<not> pinned st3 ''reranker'' \<and>
       map_option last_used (map_of (models st3) ''reranker'') = Some 100 \<and>
       map_option task_finished (unload_tasks st3 ''reranker'') = Some True \<and>
       (\<forall>t. wake_unload_task st3 ''reranker'' t = st3) \<and>
       is_loaded (wake_unload_task st3 ''reranker'' 1000) ''reranker'' \<and>
       (1000 :: real) - 100 \<ge> 300)"
  unfolding example_load_reranker
  by (simp add: mgr_defs all_available_def ensure_memory_budget.simps)

subsection \<open>Rounds of the budget loop\<close>

lemma pinned_evict_lru: "pinned (evict_lru st) = pinned st"
  by (rule ext) (simp add: pinned_def evict_lru_fields)

lemma pinned_funpow: "pinned ((evict_lru ^^ n) st) = pinned st"
  by (rule ext) (simp add: pinned_def funpow_evict_lru_fields)

lemma pinned_not_evictable: "pinned st q \<Longrightarrow> \<not> evictable st q"
  by (simp add: pinned_def evictable_def split: option.splits)

text \<open>One round of the loop removes its candidate and nothing else.\<close>

lemma evict_lru_models:
  "evict_slot st = Some e \<Longrightarrow> models (evict_lru st) = AList.delete e (models st)"
  by (simp add: evict_lru_def)

lemma set_delete_others:
  "p \<in> set ms \<Longrightarrow> fst p \<noteq> k \<Longrightarrow> p \<in> set (AList.delete k ms)"
  by (induction ms) auto

lemma example_loaded_eq:
  "example_loaded =
     \<lparr>models_config = example_config, max_ram_mb = 500,
      models = [(''embedder'', \<lparr>slot = ''embedder'',
                  model_handle = TextEmbedding ''BAAI/bge-base-en-v1.5'',
                  loaded_at = 0, last_used = 0, memory_mb = 450\<rparr>)],
      unload_tasks = Map.empty\<rparr>"
  unfolding example_loaded_def example_load_embedder by simp

lemma small_loaded_eq:
  "small_loaded =
     \<lparr>models_config = small_config, max_ram_mb = 100,
      models = [(''embedder'', \<lparr>slot = ''embedder'',
                  model_handle = TextEmbedding ''BAAI/bge-base-en-v1.5'',
                  loaded_at = 0, last_used = 0, memory_mb = 450\<rparr>)],
      unload_tasks = Map.empty\<rparr>"
  unfolding small_loaded_def
  by (simp add: mgr_defs small_manager_def small_config_def all_available_def ensure_memory_budget.simps)

lemma small_loaded_facts:
  "map_of (models small_loaded) ''reranker'' = None"
  "load_model_sync all_available small_loaded ''reranker'' = Inr (CrossEncoder ''cross-encoder/ms-marco-MiniLM-L-6-v2'')"
  "over_budget example_usage small_loaded ''reranker''"
  "evict_slot small_loaded = Some ''embedder''"
  unfolding small_loaded_eq
  by (simp_all add: mgr_defs small_config_def all_available_def over_budget_def)

lemma small_loaded_run:
  "map fst (models (snd (load_model example_usage all_available small_loaded ''reranker'' 10))) = [''reranker'']"
  unfolding small_loaded_eq
  by (simp add: mgr_defs small_config_def all_available_def ensure_memory_budget.simps)

lemma example_loaded_facts:
  "map_of (models example_loaded) ''reranker'' = None"
  "load_model_sync all_available example_loaded ''reranker'' = Inr (CrossEncoder ''cross-encoder/ms-marco-MiniLM-L-6-v2'')"
  "pinned example_loaded ''embedder''"
  "over_budget example_usage example_loaded ''reranker''"
  "evict_slot example_loaded = None"
  unfolding example_loaded_eq
  by (simp_all add: mgr_defs all_available_def over_budget_def)

lemma example_loaded_run:
  "map fst (models (snd (load_model example_usage all_available example_loaded ''reranker'' 10))) = [''embedder'', ''reranker'']"
  unfolding example_loaded_eq
  by (simp add: mgr_defs all_available_def ensure_memory_budget.simps)

subsection \<open>The status after loading and unloading\<close>

text \<open>
  C9 (amended). After \<open>load_model s\<close> has returned a model at the clock reading \<open>now\<close>, the
  status taken at the clock reading \<open>now'\<close> lists \<open>s\<close> with \<open>idle_seconds = now' - now\<close>,
  which is not negative exactly when the clock has not been set back between the two
  readings. Unloading \<open>s\<close> then, when its \<open>keep_loaded\<close> is not \<open>always\<close>, gives a status
  that does not list \<open>s\<close>; when it is \<open>always\<close>, \<open>unload_model\<close> changes nothing and \<open>s\<close>
  stays loaded.
\<close>

theorem load_unload_status:
  assumes "load_model usage available st s now = (Inr m, st')"
  shows "(\<exists>ms. map_of (loaded_models (get_status usage st' now')) s = Some ms \<and>
               idle_seconds ms = now' - now \<and> (0 \<le> idle_seconds ms \<longleftrightarrow> now \<le> now')) \<and>
         (\<not> pinned st' s \<longrightarrow>
            map_of (loaded_models (get_status usage (unload_model st' s) now')) s = None \<and>
            \<not> is_loaded (unload_model st' s) s) \<and>
         (pinned st' s \<longrightarrow> unload_model st' s = st' \<and> is_loaded (unload_model st' s) s)"
proof -
  from load_model_loaded [OF assms]
  have m: "map_of (models st') s = Some m" and lu: "last_used m = now" by simp_all
  from m have l: "is_loaded st' s"
    unfolding is_loaded_def by (metis map_of_eq_None_iff option.distinct(1) set_map)
  have a: "\<exists>ms. map_of (loaded_models (get_status usage st' now')) s = Some ms \<and>
               idle_seconds ms = now' - now \<and> (0 \<le> idle_seconds ms \<longleftrightarrow> now \<le> now')"
    by (simp add: status_lookup m lu)
  have b: "map_of (loaded_models (get_status usage (unload_model st' s) now')) s = None \<and>
           \<not> is_loaded (unload_model st' s) s" if "\<not> pinned st' s"
  proof -
    from that l have u: "unload_model st' s = st'\<lparr>models := AList.delete s (models st')\<rparr>"
      by (simp add: unload_model_def)
    have "map_of (AList.delete s (models st')) s = None" by (simp add: delete_conv')
    moreover from this have "s \<notin> fst ` set (AList.delete s (models st'))"
      by (simp add: map_of_eq_None_iff)
    ultimately show ?thesis unfolding u by (simp add: status_lookup is_loaded_def)
  qed
  have c: "unload_model st' s = st' \<and> is_loaded (unload_model st' s) s" if "pinned st' s"
    using that l by (simp add: unload_model_def)
  from a b c show ?thesis by blast
qed

theorem load_unload_status_witness:
  "load_model example_usage all_available example_manager ''reranker'' 0 =
     (Inr \<lparr>slot = ''reranker'', model_handle = CrossEncoder ''cross-encoder/ms-marco-MiniLM-L-6-v2'',
           loaded_at = 0, last_used = 0, memory_mb = 90\<rparr>,
      \<lparr>models_config = example_config, max_ram_mb = 500,
        models = [(''reranker'', \<lparr>slot = ''reranker'',
                    model_handle = CrossEncoder ''cross-encoder/ms-marco-MiniLM-L-6-v2'',
                    loaded_at = 0, last_used = 0, memory_mb = 90\<rparr>)],
        unload_tasks = [''reranker'' \<mapsto> \<lparr>task_timeout = 300, task_started = 0, task_finished = False\<rparr>]\<rparr>) \<and>
   \<not> pinned (snd (load_model example_usage all_available example_manager ''reranker'' 0)) ''reranker'' \<and>
   (\<exists>ms. map_of (loaded_models (get_status example_usage
             (snd (load_model example_usage all_available example_manager ''reranker'' 0)) 10))
             ''reranker'' = Some ms \<and> idle_seconds ms = 10 \<and> 0 \<le> idle_seconds ms) \<and>
   map_of (loaded_models (get_status example_usage
      (unload_model (snd (load_model example_usage all_available example_manager ''reranker'' 0))
         ''reranker'') 10)) ''reranker'' = None \<and>
   pinned (snd (load_model example_usage all_available example_manager ''embedder'' 0)) ''embedder'' \<and>
   is_loaded (unload_model (snd (load_model example_usage all_available example_manager ''embedder'' 0))
      ''embedder'') ''embedder''"
proof -
  let ?R = "snd (load_model example_usage all_available example_manager ''reranker'' 0)"
  let ?E = "snd (load_model example_usage all_available example_manager ''embedder'' 0)"
  obtain mr where r: "load_model example_usage all_available example_manager ''reranker'' 0 = (Inr mr, ?R)"
    by (simp add: example_load_reranker)
  obtain me where e: "load_model example_usage all_available example_manager ''embedder'' 0 = (Inr me, ?E)"
    by (simp add: example_load_embedder)
  have np: "\<not> pinned ?R ''reranker''"
    unfolding example_load_reranker by (simp add: pinned_def example_config_def)
  have p: "pinned ?E ''embedder''"
    unfolding example_load_embedder by (simp add: pinned_def example_config_def)
  from load_unload_status [OF r, where now' = 10] np
  have a: "\<exists>ms. map_of (loaded_models (get_status example_usage ?R 10)) ''reranker'' = Some ms \<and>
             idle_seconds ms = 10 - 0 \<and> (0 \<le> idle_seconds ms \<longleftrightarrow> (0 :: real) \<le> 10)"
    and b: "map_of (loaded_models (get_status example_usage (unload_model ?R ''reranker'') 10)) ''reranker'' = None"
    by blast+
  from load_unload_status [OF e, where now' = 10] p
  have c: "is_loaded (unload_model ?E ''embedder'') ''embedder''" by blast
  from a have a': "\<exists>ms. map_of (loaded_models (get_status example_usage ?R 10)) ''reranker'' = Some ms \<and>
             idle_seconds ms = 10 \<and> 0 \<le> idle_seconds ms" by simp
  from example_load_reranker np a' b p c show ?thesis by (intro conjI)
qed

text \<open>
  C9 as stated fails when the clock is set back: \<open>time.time()\<close> is the wall clock. The
  reranker is loaded at the reading 10 and the status is taken at the reading 5; it
  lists the slot with \<open>idle_seconds = -5\<close>.
\<close>

theorem status_idle_negative:
  "fst (load_model example_usage all_available example_manager ''reranker'' 10) =
     Inr \<lparr>slot = ''reranker'', model_handle = CrossEncoder ''cross-encoder/ms-marco-MiniLM-L-6-v2'',
          loaded_at = 10, last_used = 10, memory_mb = 90\<rparr> \<and>
   map_of (loaded_models (get_status example_usage
       (snd (load_model example_usage all_available example_manager ''reranker'' 10)) 5)) ''reranker'' =
     Some \<lparr>st_loaded_at = 10, st_last_used = 10, st_memory_mb = 90, idle_seconds = - 5\<rparr>"
  by (simp add: mgr_defs all_available_def ensure_memory_budget.simps get_status_def)

subsection \<open>The ordered map is in order of last use\<close>

lemma last_use_le: "last_use ops s \<le> length ops"
  by (induction ops) simp_all

lemma last_use_snoc:
  "last_use (ops @ [c]) s = (if loads_slot s c then Suc (length ops) else last_use ops s)"
  by (induction ops) simp_all

lemma keys_delete: "map fst (AList.delete k ms) = filter (\<lambda>k'. k' \<noteq> k) (map fst ms)"
  by (induction ms) auto

lemma keys_evict_lru: "\<exists>P. map fst (models (evict_lru st)) = filter P (map fst (models st))"
proof (cases "evict_slot st")
  case None
  then have "map fst (models (evict_lru st)) = filter (\<lambda>k. True) (map fst (models st))"
    by (simp add: evict_lru_None)
  then show ?thesis by (rule exI [where x = "\<lambda>k. True"])
next
  case (Some e)
  then have "map fst (models (evict_lru st)) = filter (\<lambda>k. k \<noteq> e) (map fst (models st))"
    by (simp add: evict_lru_models keys_delete)
  then show ?thesis by (rule exI [where x = "\<lambda>k. k \<noteq> e"])
qed

lemma keys_funpow_evict_lru:
  "\<exists>P. map fst (models ((evict_lru ^^ n) st)) = filter P (map fst (models st))"
proof (induction n)
  case 0
  have "map fst (models ((evict_lru ^^ 0) st)) = filter (\<lambda>k. True) (map fst (models st))" by simp
  then show ?case by (rule exI [where x = "\<lambda>k. True"])
next
  case (Suc n)
  then obtain P where P: "map fst (models ((evict_lru ^^ n) st)) = filter P (map fst (models st))" ..
  from keys_evict_lru [of "(evict_lru ^^ n) st"] obtain Q where
    Q: "map fst (models (evict_lru ((evict_lru ^^ n) st))) = filter Q (map fst (models ((evict_lru ^^ n) st)))" ..
  have "map fst (models ((evict_lru ^^ Suc n) st)) = filter (\<lambda>k. P k \<and> Q k) (map fst (models st))"
    by (simp add: Q P conj_commute)
  then show ?case by (rule exI [where x = "\<lambda>k. P k \<and> Q k"])
qed

lemma keys_ensure:
  "\<exists>P. map fst (models (ensure_memory_budget usage st s)) = filter P (map fst (models st))"
proof -
  from ensure_funpow [of usage st s] obtain n where
    "ensure_memory_budget usage st s = (evict_lru ^^ n) st" by blast
  then show ?thesis by (simp add: keys_funpow_evict_lru)
qed

lemma keys_unload: "\<exists>P. map fst (models (unload_model st s)) = filter P (map fst (models st))"
proof (cases "unload_model st s = st")
  case True
  then have "map fst (models (unload_model st s)) = filter (\<lambda>k. True) (map fst (models st))" by simp
  then show ?thesis by (rule exI [where x = "\<lambda>k. True"])
next
  case False
  then have "unload_model st s = st\<lparr>models := AList.delete s (models st)\<rparr>"
    by (simp add: unload_model_def split: if_splits)
  then have "map fst (models (unload_model st s)) = filter (\<lambda>k. k \<noteq> s) (map fst (models st))"
    by (simp add: keys_delete)
  then show ?thesis by (rule exI [where x = "\<lambda>k. k \<noteq> s"])
qed

lemma models_wake:
  "models (wake_unload_task st s now) = models st \<or>
   models (wake_unload_task st s now) = models (unload_model st s)"
  by (simp add: wake_unload_task_def delayed_unload_def split: option.splits)

lemma keys_wake: "\<exists>P. map fst (models (wake_unload_task st s now)) = filter P (map fst (models st))"
proof -
  from models_wake [of st s now] show ?thesis
  proof
    assume "models (wake_unload_task st s now) = models st"
    then have "map fst (models (wake_unload_task st s now)) = filter (\<lambda>k. True) (map fst (models st))"
      by simp
    then show ?thesis by (rule exI [where x = "\<lambda>k. True"])
  next
    assume "models (wake_unload_task st s now) = models (unload_model st s)"
    then show ?thesis by (simp add: keys_unload)
  qed
qed

lemma load_model_miss_fail_models:
  assumes "map_of (models st) s = None" "load_model_sync available st s = Inl err"
  shows "models (snd (load_model usage available st s now)) = models (ensure_memory_budget usage st s)"
proof -
  let ?st1 = "st\<lparr>unload_tasks := (unload_tasks st)(s := None)\<rparr>"
  let ?st2 = "ensure_memory_budget usage ?st1 s"
  have e: "?st2 = (ensure_memory_budget usage st s)\<lparr>unload_tasks := (unload_tasks st)(s := None)\<rparr>"
    by (rule ensure_tasks)
  have "models_config ?st2 = models_config st" unfolding e by (simp add: ensure_fields)
  then have "load_model_sync available ?st2 s = load_model_sync available st s"
    by (rule load_model_sync_config)
  then have l: "load_model_sync available ?st2 s = Inl err"
    using assms(2) by (simp only:)
  have "load_model usage available st s now = (Inl err, ?st2)"
    unfolding load_model_def Let_def by (simp only: assms(1) l option.case sum.case)
  then show ?thesis unfolding e by simp
qed

text \<open>
  What \<open>load_model\<close> does to the keys of the ordered map: on the path that fails it thins
  them; on the paths that return a model it thins them and puts the slot last.
\<close>

lemma load_model_keys:
  "(\<exists>P. map fst (models (snd (load_model usage available st s now))) = filter P (map fst (models st)) \<and>
        s \<notin> set (map fst (models st))) \<or>
   (\<exists>P. map fst (models (snd (load_model usage available st s now))) = filter P (map fst (models st)) @ [s] \<and>
        s \<notin> set (filter P (map fst (models st))))"
proof (cases "map_of (models st) s")
  case (Some m0)
  then have "snd (load_model usage available st s now) =
      st\<lparr>models := AList.delete s (models st) @ [(s, m0\<lparr>last_used := now\<rparr>)]\<rparr>"
    by (simp add: load_model_def touch_and_move_to_end_def)
  then have "map fst (models (snd (load_model usage available st s now))) =
      filter (\<lambda>k. k \<noteq> s) (map fst (models st)) @ [s] \<and>
      s \<notin> set (filter (\<lambda>k. k \<noteq> s) (map fst (models st)))"
    by (simp add: keys_delete)
  then show ?thesis by blast
next
  case None
  then have ns: "s \<notin> set (map fst (models st))" by (simp add: map_of_eq_None_iff)
  from keys_ensure [of usage st s] obtain P where
    P: "map fst (models (ensure_memory_budget usage st s)) = filter P (map fst (models st))" ..
  show ?thesis
  proof (cases "load_model_sync available st s")
    case (Inl err)
    from load_model_miss_fail_models [OF None Inl, of usage now]
    have "map fst (models (snd (load_model usage available st s now))) = filter P (map fst (models st))"
      by (simp add: P)
    with ns show ?thesis by blast
  next
    case (Inr inst)
    from load_model_miss [OF None Inr, of usage now] obtain st' m where
      "load_model usage available st s now = (Inr m, st')"
      "models st' = models (ensure_memory_budget usage st s) @ [(s, m)]"
      by blast
    then have "map fst (models (snd (load_model usage available st s now))) =
                 filter P (map fst (models st)) @ [s]"
      by (simp add: P)
    moreover from ns have "s \<notin> set (filter P (map fst (models st)))" by simp
    ultimately show ?thesis by blast
  qed
qed

text \<open>The path of \<open>load_model\<close> that finds the slot loaded unloads nothing.\<close>

lemma load_model_hit_keeps:
  assumes "map_of (models st) s = Some m0"
  shows "set (map fst (models (snd (load_model usage available st s now)))) = set (map fst (models st))"
proof -
  from assms have "snd (load_model usage available st s now) =
      st\<lparr>models := AList.delete s (models st) @ [(s, m0\<lparr>last_used := now\<rparr>)]\<rparr>"
    by (simp add: load_model_def touch_and_move_to_end_def)
  moreover from assms have "s \<in> set (map fst (models st))"
    by (metis map_of_eq_None_iff option.distinct(1) set_map)
  ultimately show ?thesis by (auto simp: keys_delete)
qed

lemma sorted_step_filter:
  fixes f f' :: "'a \<Rightarrow> nat"
  assumes "sorted_wrt (\<lambda>a b. f a < f b) K" and "\<And>q. q \<in> set K \<Longrightarrow> P q \<Longrightarrow> f' q = f q"
  shows "sorted_wrt (\<lambda>a b. f' a < f' b) (filter P K)"
proof -
  from assms(1) have "sorted_wrt (\<lambda>a b. f a < f b) (filter P K)" by (rule sorted_wrt_filter)
  then show ?thesis
  proof (rule sorted_wrt_mono_rel [rotated])
    fix x y assume "x \<in> set (filter P K)" "y \<in> set (filter P K)" "f x < f y"
    then show "f' x < f' y" using assms(2) by simp
  qed
qed

lemma run_ops_snoc:
  "run_ops usage available st (ops @ [c]) = apply_op usage available (run_ops usage available st ops) c"
  by (simp add: run_ops_def)

text \<open>
  In every state that a run reaches from the empty manager, the ordered map lists the
  loaded slots in the order of their last use, the least recently used first.
\<close>

lemma run_recency:
  assumes "models st0 = []"
  shows "sorted_wrt (\<lambda>a b. last_use ops a < last_use ops b)
           (map fst (models (run_ops usage available st0 ops)))"
proof (induction ops rule: rev_induct)
  case Nil
  then show ?case by (simp add: run_ops_def assms)
next
  case (snoc c ops)
  let ?st = "run_ops usage available st0 ops"
  let ?K = "map fst (models ?st)"
  show ?case
  proof (cases c)
    case (Load s now)
    have f': "last_use (ops @ [c]) q = last_use ops q" if "q \<noteq> s" for q
      using that by (simp add: last_use_snoc Load)
    have fs: "last_use (ops @ [c]) s = Suc (length ops)" by (simp add: last_use_snoc Load)
    from load_model_keys [of usage available ?st s now] show ?thesis
    proof (elim disjE exE conjE)
      fix P
      assume k: "map fst (models (snd (load_model usage available ?st s now))) = filter P ?K"
        and ns: "s \<notin> set ?K"
      have "sorted_wrt (\<lambda>a b. last_use (ops @ [c]) a < last_use (ops @ [c]) b) (filter P ?K)"
        using snoc.IH
      proof (rule sorted_step_filter)
        fix q assume "q \<in> set ?K" "P q"
        with ns have "q \<noteq> s" by auto
        then show "last_use (ops @ [c]) q = last_use ops q" by (rule f')
      qed
      then show ?thesis by (simp add: Load run_ops_snoc k)
    next
      fix P
      assume k: "map fst (models (snd (load_model usage available ?st s now))) = filter P ?K @ [s]"
        and ns: "s \<notin> set (filter P ?K)"
      have a: "sorted_wrt (\<lambda>a b. last_use (ops @ [c]) a < last_use (ops @ [c]) b) (filter P ?K)"
        using snoc.IH
      proof (rule sorted_step_filter)
        fix q assume "q \<in> set ?K" "P q"
        with ns have "q \<noteq> s" by auto
        then show "last_use (ops @ [c]) q = last_use ops q" by (rule f')
      qed
      have b: "last_use (ops @ [c]) x < last_use (ops @ [c]) s" if "x \<in> set (filter P ?K)" for x
      proof -
        from that ns have "x \<noteq> s" by auto
        then have "last_use (ops @ [c]) x = last_use ops x" by (rule f')
        also have "\<dots> \<le> length ops" by (rule last_use_le)
        finally show ?thesis unfolding fs by simp
      qed
      show ?thesis using a b by (simp add: Load run_ops_snoc k sorted_wrt_append)
    qed
  next
    case (Unload s)
    from keys_unload [of ?st s] obtain P where
      k: "map fst (models (unload_model ?st s)) = filter P ?K" ..
    have "sorted_wrt (\<lambda>a b. last_use (ops @ [c]) a < last_use (ops @ [c]) b) (filter P ?K)"
      using snoc.IH by (rule sorted_step_filter) (simp add: last_use_snoc Unload)
    then show ?thesis by (simp add: Unload run_ops_snoc k)
  next
    case (Wake s now)
    from keys_wake [of ?st s now] obtain P where
      k: "map fst (models (wake_unload_task ?st s now)) = filter P ?K" ..
    have "sorted_wrt (\<lambda>a b. last_use (ops @ [c]) a < last_use (ops @ [c]) b) (filter P ?K)"
      using snoc.IH by (rule sorted_step_filter) (simp add: last_use_snoc Wake)
    then show ?thesis by (simp add: Wake run_ops_snoc k)
  qed
qed

lemma find_first_earliest:
  fixes f :: "'a \<Rightarrow> nat"
  shows "sorted_wrt (\<lambda>a b. f a < f b) xs \<Longrightarrow> find P xs = Some e \<Longrightarrow>
         \<forall>q \<in> set xs. P q \<and> q \<noteq> e \<longrightarrow> f e < f q"
proof (induction xs)
  case Nil
  then show ?case by simp
next
  case (Cons x xs)
  show ?case
  proof (cases "P x")
    case True
    with Cons.prems(2) have "e = x" by simp
    with Cons.prems(1) show ?thesis by auto
  next
    case False
    with Cons.prems(2) have "find P xs = Some e" by simp
    moreover from Cons.prems(1) have "sorted_wrt (\<lambda>a b. f a < f b) xs" by simp
    ultimately have "\<forall>q \<in> set xs. P q \<and> q \<noteq> e \<longrightarrow> f e < f q" by (rule Cons.IH [rotated])
    with False show ?thesis by auto
  qed
qed

text \<open>The candidate of every round is the least recently used of the evictable slots.\<close>

lemma round_victim_lru:
  assumes "models st0 = []" and "st = run_ops usage available st0 ops"
    and "evict_slot ((evict_lru ^^ j) st) = Some e"
  shows "\<forall>q \<in> set (map fst (models ((evict_lru ^^ j) st))).
           evictable st q \<and> q \<noteq> e \<longrightarrow> last_use ops e < last_use ops q"
proof -
  from keys_funpow_evict_lru [of j st] obtain P where
    P: "map fst (models ((evict_lru ^^ j) st)) = filter P (map fst (models st))" ..
  have "sorted_wrt (\<lambda>a b. last_use ops a < last_use ops b) (map fst (models st))"
    unfolding assms(2) using assms(1) by (rule run_recency)
  then have s: "sorted_wrt (\<lambda>a b. last_use ops a < last_use ops b) (map fst (models ((evict_lru ^^ j) st)))"
    unfolding P by (rule sorted_wrt_filter)
  from assms(3) have "find (evictable st) (map fst (models ((evict_lru ^^ j) st))) = Some e"
    by (simp add: evict_slot_def evictable_funpow)
  with s show ?thesis by (rule find_first_earliest)
qed

subsection \<open>The eviction policy\<close>

text \<open>
  C6. Let the manager be in a state that a run \<open>ops\<close> has reached from the empty manager,
  and let \<open>load_model\<close> be called for a slot that is not loaded. The budget loop is a
  number \<open>n\<close> of rounds. Before each round the measured memory plus the estimate of the
  slot exceeds \<open>max_ram_mb\<close>, and the round unloads one loaded slot \<open>e\<close> that is not
  pinned and leaves every other entry in place; \<open>e\<close> is the least recently used of the
  loaded slots that are evictable (configured, with a \<open>keep_loaded\<close> that is not
  \<open>always\<close>): every other one has been used later in the run. After the last round the
  budget fits or no evictable slot is loaded. No entry that is not evictable, so no
  pinned entry, is ever removed. The load goes on in both cases: the budget decides
  nothing about its outcome, the new entry is appended to what the rounds left when
  the model is constructed, and nothing is appended when its construction fails.
\<close>

theorem eviction_policy:
  assumes "models st0 = []" and "st = run_ops usage available st0 ops"
    and "map_of (models st) s = None"
  shows "\<exists>n.
           models (snd (load_model usage available st s now)) =
             models ((evict_lru ^^ n) st) @
               (case fst (load_model usage available st s now) of Inl err \<Rightarrow> [] | Inr m \<Rightarrow> [(s, m)]) \<and>
           (\<forall>j<n. over_budget usage ((evict_lru ^^ j) st) s \<and>
              (\<exists>e. evict_slot ((evict_lru ^^ j) st) = Some e \<and>
                   is_loaded ((evict_lru ^^ j) st) e \<and> \<not> pinned st e \<and>
                   models ((evict_lru ^^ Suc j) st) = AList.delete e (models ((evict_lru ^^ j) st)) \<and>
                   (\<forall>q \<in> set (map fst (models ((evict_lru ^^ j) st))).
                       evictable st q \<and> q \<noteq> e \<longrightarrow> last_use ops e < last_use ops q))) \<and>
           (\<not> over_budget usage ((evict_lru ^^ n) st) s \<or>
            (\<forall>q \<in> set (models ((evict_lru ^^ n) st)). \<not> evictable st (fst q))) \<and>
           (\<forall>q \<in> set (models st). \<not> evictable st (fst q) \<longrightarrow>
               q \<in> set (models (snd (load_model usage available st s now)))) \<and>
           (\<forall>inst. load_model_sync available st s = Inr inst \<longrightarrow>
               (\<exists>m. fst (load_model usage available st s now) = Inr m \<and> model_handle m = inst))"
proof -
  let ?L = "load_model usage available st s now"
  have tail: "models (snd ?L) = models (ensure_memory_budget usage st s) @
                (case fst ?L of Inl err \<Rightarrow> [] | Inr m \<Rightarrow> [(s, m)])"
    and ok: "\<forall>inst. load_model_sync available st s = Inr inst \<longrightarrow>
               (\<exists>m. fst ?L = Inr m \<and> model_handle m = inst)"
  proof -
    show "models (snd ?L) = models (ensure_memory_budget usage st s) @
                (case fst ?L of Inl err \<Rightarrow> [] | Inr m \<Rightarrow> [(s, m)])"
    proof (cases "load_model_sync available st s")
      case (Inl err)
      from load_model_miss_fail [OF assms(3) Inl, of usage now]
        load_model_miss_fail_models [OF assms(3) Inl, of usage now]
      show ?thesis by simp
    next
      case (Inr inst)
      from load_model_miss [OF assms(3) Inr, of usage now] obtain st' m where
        "?L = (Inr m, st')" "models st' = models (ensure_memory_budget usage st s) @ [(s, m)]"
        by blast
      then show ?thesis by simp
    qed
    show "\<forall>inst. load_model_sync available st s = Inr inst \<longrightarrow>
               (\<exists>m. fst ?L = Inr m \<and> model_handle m = inst)"
    proof (intro allI impI)
      fix inst assume "load_model_sync available st s = Inr inst"
      from load_model_miss [OF assms(3) this, of usage now] obtain st' where
        "?L = (Inr \<lparr>slot = s, model_handle = inst, loaded_at = now, last_used = now,
                     memory_mb = estimate_model_memory s\<rparr>, st')"
        by blast
      then show "\<exists>m. fst ?L = Inr m \<and> model_handle m = inst" by simp
    qed
  qed
  from ensure_funpow [of usage st s] obtain n where
    n: "ensure_memory_budget usage st s = (evict_lru ^^ n) st"
    and rounds: "\<forall>j<n. over_budget usage ((evict_lru ^^ j) st) s \<and> evict_slot ((evict_lru ^^ j) st) \<noteq> None"
    and fin: "\<not> over_budget usage (ensure_memory_budget usage st s) s \<or>
              evict_slot (ensure_memory_budget usage st s) = None"
    by blast
  have a: "models (snd ?L) = models ((evict_lru ^^ n) st) @
                (case fst ?L of Inl err \<Rightarrow> [] | Inr m \<Rightarrow> [(s, m)])"
    using tail unfolding n .
  have b: "over_budget usage ((evict_lru ^^ j) st) s \<and>
              (\<exists>e. evict_slot ((evict_lru ^^ j) st) = Some e \<and>
                   is_loaded ((evict_lru ^^ j) st) e \<and> \<not> pinned st e \<and>
                   models ((evict_lru ^^ Suc j) st) = AList.delete e (models ((evict_lru ^^ j) st)) \<and>
                   (\<forall>q \<in> set (map fst (models ((evict_lru ^^ j) st))).
                       evictable st q \<and> q \<noteq> e \<longrightarrow> last_use ops e < last_use ops q))"
    if j: "j < n" for j
  proof -
    let ?sj = "(evict_lru ^^ j) st"
    from rounds j have ob: "over_budget usage ?sj s" and "evict_slot ?sj \<noteq> None" by simp_all
    then obtain e where e: "evict_slot ?sj = Some e" by blast
    from evict_slot_Some [OF e] have l: "is_loaded ?sj e" and ev: "evictable ?sj e" by simp_all
    from ev have "\<not> pinned ?sj e" by (rule evictable_not_pinned)
    then have np: "\<not> pinned st e" by (simp add: pinned_funpow)
    have d: "models ((evict_lru ^^ Suc j) st) = AList.delete e (models ?sj)"
      using e by (simp add: evict_lru_models)
    from assms(1) assms(2) e
    have lru: "\<forall>q \<in> set (map fst (models ?sj)). evictable st q \<and> q \<noteq> e \<longrightarrow> last_use ops e < last_use ops q"
      by (rule round_victim_lru)
    from ob e l np d lru show ?thesis by blast
  qed
  have c: "\<not> over_budget usage ((evict_lru ^^ n) st) s \<or>
            (\<forall>q \<in> set (models ((evict_lru ^^ n) st)). \<not> evictable st (fst q))"
  proof (cases "over_budget usage ((evict_lru ^^ n) st) s")
    case False
    then show ?thesis by simp
  next
    case True
    with fin have "evict_slot ((evict_lru ^^ n) st) = None" unfolding n by simp
    then have "\<forall>q \<in> set (models ((evict_lru ^^ n) st)). \<not> evictable ((evict_lru ^^ n) st) (fst q)"
      by (auto simp: evict_slot_def find_None_iff)
    then show ?thesis by (simp add: evictable_funpow)
  qed
  have d: "\<forall>q \<in> set (models st). \<not> evictable st (fst q) \<longrightarrow> q \<in> set (models (snd ?L))"
  proof (intro ballI impI)
    fix q assume "q \<in> set (models st)" "\<not> evictable st (fst q)"
    then have "q \<in> set (models ((evict_lru ^^ n) st))" by (rule funpow_evict_lru_keeps)
    then show "q \<in> set (models (snd ?L))" unfolding a by simp
  qed
  from b have b': "\<forall>j<n. over_budget usage ((evict_lru ^^ j) st) s \<and>
              (\<exists>e. evict_slot ((evict_lru ^^ j) st) = Some e \<and>
                   is_loaded ((evict_lru ^^ j) st) e \<and> \<not> pinned st e \<and>
                   models ((evict_lru ^^ Suc j) st) = AList.delete e (models ((evict_lru ^^ j) st)) \<and>
                   (\<forall>q \<in> set (map fst (models ((evict_lru ^^ j) st))).
                       evictable st q \<and> q \<noteq> e \<longrightarrow> last_use ops e < last_use ops q))"
    by blast
  from a b' c d ok show ?thesis by (intro exI [of _ n] conjI)
qed

subsection \<open>Runs of the eviction policy\<close>

lemma run_ops_simps:
  "run_ops usage available st [] = st"
  "run_ops usage available st (c # ops) = run_ops usage available (apply_op usage available st c) ops"
  by (simp_all add: run_ops_def)

lemma roomy_state:
  "run_ops example_usage all_available roomy_manager roomy_ops =
     \<lparr>models_config = small_config, max_ram_mb = 1000,
      models = [(''reranker'', \<lparr>slot = ''reranker'', model_handle = CrossEncoder ''cross-encoder/ms-marco-MiniLM-L-6-v2'',
                   loaded_at = 10, last_used = 10, memory_mb = 90\<rparr>),
                (''embedder'', \<lparr>slot = ''embedder'',
                   model_handle = TextEmbedding ''BAAI/bge-base-en-v1.5'',
                   loaded_at = 0, last_used = 20, memory_mb = 450\<rparr>)],
      unload_tasks = [''reranker'' \<mapsto> \<lparr>task_timeout = 300, task_started = 10, task_finished = False\<rparr>]\<rparr>"
  by (simp add: roomy_ops_def roomy_manager_def run_ops_simps mgr_defs small_config_def all_available_def
        ensure_memory_budget.simps)

lemma roomy_facts:
  "models roomy_manager = []"
  "map_of (models (run_ops example_usage all_available roomy_manager roomy_ops)) ''other'' = None"
  "map fst (models (run_ops example_usage all_available roomy_manager roomy_ops)) = [''reranker'', ''embedder'']"
  "last_use roomy_ops ''reranker'' = 2"
  "last_use roomy_ops ''embedder'' = 3"
  "evictable (run_ops example_usage all_available roomy_manager roomy_ops) ''embedder''"
  "over_budget example_usage (run_ops example_usage all_available roomy_manager roomy_ops) ''other''"
  "evict_slot (run_ops example_usage all_available roomy_manager roomy_ops) = Some ''reranker''"
  unfolding roomy_state
  by (simp_all add: roomy_manager_def roomy_ops_def mgr_defs small_config_def over_budget_def)

lemma roomy_run:
  "fst (load_model example_usage all_available
         (run_ops example_usage all_available roomy_manager roomy_ops) ''other'' 30) =
     Inl (ValueError ''Unknown model slot: other'')"
  "map fst (models (snd (load_model example_usage all_available
         (run_ops example_usage all_available roomy_manager roomy_ops) ''other'' 30))) = [''embedder'']"
  unfolding roomy_state
  by (simp_all add: mgr_defs small_config_def all_available_def ensure_memory_budget.simps)

lemma small_loaded_run_ops:
  "small_loaded = run_ops example_usage all_available small_manager [Load ''embedder'' 0]"
  by (simp add: small_loaded_def run_ops_simps)

lemma example_loaded_run_ops:
  "example_loaded = run_ops example_usage all_available example_manager [Load ''embedder'' 0]"
  by (simp add: example_loaded_def run_ops_simps)

text \<open>
  Three runs. With the roomy budget the embedder is loaded, then the reranker, then
  the embedder is used again, so that the reranker is the least recently used; the
  load of a slot \<open>other\<close> of 500 MB evicts the reranker, keeps the embedder, and fails,
  the slot being unknown. With the small budget the load of the reranker evicts the
  embedder and succeeds. With the embedder pinned the load of the reranker exceeds the
  budget, evicts nothing and succeeds.
\<close>

theorem eviction_policy_witness:
  "models roomy_manager = [] \<and>
   map_of (models (run_ops example_usage all_available roomy_manager roomy_ops)) ''other'' = None \<and>
   map fst (models (run_ops example_usage all_available roomy_manager roomy_ops)) = [''reranker'', ''embedder''] \<and>
   last_use roomy_ops ''reranker'' = 2 \<and>
   last_use roomy_ops ''embedder'' = 3 \<and>
   evictable (run_ops example_usage all_available roomy_manager roomy_ops) ''embedder'' \<and>
   over_budget example_usage (run_ops example_usage all_available roomy_manager roomy_ops) ''other'' \<and>
   evict_slot (run_ops example_usage all_available roomy_manager roomy_ops) = Some ''reranker'' \<and>
   fst (load_model example_usage all_available
         (run_ops example_usage all_available roomy_manager roomy_ops) ''other'' 30) =
     Inl (ValueError ''Unknown model slot: other'') \<and>
   map fst (models (snd (load_model example_usage all_available
         (run_ops example_usage all_available roomy_manager roomy_ops) ''other'' 30))) = [''embedder''] \<and>
   (\<exists>n.
           models (snd (load_model example_usage all_available (run_ops example_usage all_available roomy_manager roomy_ops) ''other'' 30)) =
             models ((evict_lru ^^ n) (run_ops example_usage all_available roomy_manager roomy_ops)) @
               (case fst (load_model example_usage all_available (run_ops example_usage all_available roomy_manager roomy_ops) ''other'' 30) of Inl err \<Rightarrow> [] | Inr m \<Rightarrow> [(''other'', m)]) \<and>
           (\<forall>j<n. over_budget example_usage ((evict_lru ^^ j) (run_ops example_usage all_available roomy_manager roomy_ops)) ''other'' \<and>
              (\<exists>e. evict_slot ((evict_lru ^^ j) (run_ops example_usage all_available roomy_manager roomy_ops)) = Some e \<and>
                   is_loaded ((evict_lru ^^ j) (run_ops example_usage all_available roomy_manager roomy_ops)) e \<and> \<not> pinned (run_ops example_usage all_available roomy_manager roomy_ops) e \<and>
                   models ((evict_lru ^^ Suc j) (run_ops example_usage all_available roomy_manager roomy_ops)) = AList.delete e (models ((evict_lru ^^ j) (run_ops example_usage all_available roomy_manager roomy_ops))) \<and>
                   (\<forall>q \<in> set (map fst (models ((evict_lru ^^ j) (run_ops example_usage all_available roomy_manager roomy_ops)))).
                       evictable (run_ops example_usage all_available roomy_manager roomy_ops) q \<and> q \<noteq> e \<longrightarrow> last_use roomy_ops e < last_use roomy_ops q))) \<and>
           (\<not> over_budget example_usage ((evict_lru ^^ n) (run_ops example_usage all_available roomy_manager roomy_ops)) ''other'' \<or>
            (\<forall>q \<in> set (models ((evict_lru ^^ n) (run_ops example_usage all_available roomy_manager roomy_ops))). \<not> evictable (run_ops example_usage all_available roomy_manager roomy_ops) (fst q))) \<and>
           (\<forall>q \<in> set (models (run_ops example_usage all_available roomy_manager roomy_ops)). \<not> evictable (run_ops example_usage all_available roomy_manager roomy_ops) (fst q) \<longrightarrow>
               q \<in> set (models (snd (load_model example_usage all_available (run_ops example_usage all_available roomy_manager roomy_ops) ''other'' 30)))) \<and>
           (\<forall>inst. load_model_sync all_available (run_ops example_usage all_available roomy_manager roomy_ops) ''other'' = Inr inst \<longrightarrow>
               (\<exists>m. fst (load_model example_usage all_available (run_ops example_usage all_available roomy_manager roomy_ops) ''other'' 30) = Inr m \<and> model_handle m = inst))) \<and>
   models small_manager = [] \<and>
   small_loaded = run_ops example_usage all_available small_manager [Load ''embedder'' 0] \<and>
   map_of (models small_loaded) ''reranker'' = None \<and>
   load_model_sync all_available small_loaded ''reranker'' = Inr (CrossEncoder ''cross-encoder/ms-marco-MiniLM-L-6-v2'') \<and>
   over_budget example_usage small_loaded ''reranker'' \<and>
   evict_slot small_loaded = Some ''embedder'' \<and>
   map fst (models (snd (load_model example_usage all_available small_loaded ''reranker'' 10))) = [''reranker''] \<and>
   models example_manager = [] \<and>
   example_loaded = run_ops example_usage all_available example_manager [Load ''embedder'' 0] \<and>
   map_of (models example_loaded) ''reranker'' = None \<and>
   pinned example_loaded ''embedder'' \<and>
   over_budget example_usage example_loaded ''reranker'' \<and>
   evict_slot example_loaded = None \<and>
   map fst (models (snd (load_model example_usage all_available example_loaded ''reranker'' 10))) =
     [''embedder'', ''reranker'']"
proof -
  note r = roomy_facts
  have a: "(\<exists>n.
           models (snd (load_model example_usage all_available (run_ops example_usage all_available roomy_manager roomy_ops) ''other'' 30)) =
             models ((evict_lru ^^ n) (run_ops example_usage all_available roomy_manager roomy_ops)) @
               (case fst (load_model example_usage all_available (run_ops example_usage all_available roomy_manager roomy_ops) ''other'' 30) of Inl err \<Rightarrow> [] | Inr m \<Rightarrow> [(''other'', m)]) \<and>
           (\<forall>j<n. over_budget example_usage ((evict_lru ^^ j) (run_ops example_usage all_available roomy_manager roomy_ops)) ''other'' \<and>
              (\<exists>e. evict_slot ((evict_lru ^^ j) (run_ops example_usage all_available roomy_manager roomy_ops)) = Some e \<and>
                   is_loaded ((evict_lru ^^ j) (run_ops example_usage all_available roomy_manager roomy_ops)) e \<and> \<not> pinned (run_ops example_usage all_available roomy_manager roomy_ops) e \<and>
                   models ((evict_lru ^^ Suc j) (run_ops example_usage all_available roomy_manager roomy_ops)) = AList.delete e (models ((evict_lru ^^ j) (run_ops example_usage all_available roomy_manager roomy_ops))) \<and>
                   (\<forall>q \<in> set (map fst (models ((evict_lru ^^ j) (run_ops example_usage all_available roomy_manager roomy_ops)))).
                       evictable (run_ops example_usage all_available roomy_manager roomy_ops) q \<and> q \<noteq> e \<longrightarrow> last_use roomy_ops e < last_use roomy_ops q))) \<and>
           (\<not> over_budget example_usage ((evict_lru ^^ n) (run_ops example_usage all_available roomy_manager roomy_ops)) ''other'' \<or>
            (\<forall>q \<in> set (models ((evict_lru ^^ n) (run_ops example_usage all_available roomy_manager roomy_ops))). \<not> evictable (run_ops example_usage all_available roomy_manager roomy_ops) (fst q))) \<and>
           (\<forall>q \<in> set (models (run_ops example_usage all_available roomy_manager roomy_ops)). \<not> evictable (run_ops example_usage all_available roomy_manager roomy_ops) (fst q) \<longrightarrow>
               q \<in> set (models (snd (load_model example_usage all_available (run_ops example_usage all_available roomy_manager roomy_ops) ''other'' 30)))) \<and>
           (\<forall>inst. load_model_sync all_available (run_ops example_usage all_available roomy_manager roomy_ops) ''other'' = Inr inst \<longrightarrow>
               (\<exists>m. fst (load_model example_usage all_available (run_ops example_usage all_available roomy_manager roomy_ops) ''other'' 30) = Inr m \<and> model_handle m = inst)))"
    by (rule eviction_policy [OF r(1) refl r(2)])
  have s0: "models small_manager = []" by (simp add: small_manager_def)
  have e0: "models example_manager = []" by (simp add: example_manager_def)
  note s = small_loaded_facts
  note e = example_loaded_facts
  from r roomy_run a s0 small_loaded_run_ops s(1) s(2) s(3) s(4) small_loaded_run
    e0 example_loaded_run_ops e(1) e(3) e(4) e(5) example_loaded_run
  show ?thesis by (intro conjI)
qed

section \<open>Properties of the request dispatcher\<close>

lemma py_get_dict: "py_get (JObj d) k dflt = Inr (dict_get d k dflt)"
  by simp



lemma embed_in_handlers: "in_handlers (JStr ''embed'')"
  by (simp add: handler_names_def)

text \<open>
  The responses of \<open>_handle_request\<close> on a payload that decodes: a text that \<open>json.loads\<close>
  rejects is answered with the code -32700; a request object whose method has a hash
  and is not a key of the registry, with -32601 and the id of the request; an
  exception of a handler that is an instance of \<open>Exception\<close>, with -32000, its message and
  the id of the request.
\<close>

lemma handle_request_parse_error:
  assumes "utf8_valid data" and "loads data = Inl (PyJSONDecodeError m)"
  shows "handle_request loads embed_texts others st data =
           (Inr (Error (- 32700) (ParseError m) JNull), st)"
  using assms by (simp add: handle_request_def)

lemma handle_request_method_not_found:
  assumes "utf8_valid data" and "loads data = Inr (JObj req)"
    and "hashable (dict_get req ''method'' JNull)"
    and "\<not> in_handlers (dict_get req ''method'' JNull)"
  shows "handle_request loads embed_texts others st data =
           (Inr (Error (- 32601) (MethodNotFound (dict_get req ''method'' JNull))
                  (dict_get req ''id'' JNull)),
            st\<lparr>request_count := request_count st + 1\<rparr>)"
  using assms by (simp add: handle_request_def Let_def)


text \<open>
  C8. The payload that is the single byte \<open>FF\<close> is not UTF-8, so it is not JSON. For
  every parser, all handlers and every state of the daemon, \<open>data.decode()\<close> raises
  \<open>UnicodeDecodeError\<close>, which is not a \<open>JSONDecodeError\<close>: the exception leaves
  \<open>_handle_request\<close>, no response with the code -32700 is made, and \<open>_handle_client\<close> closes
  the connection without writing anything.
\<close>

theorem invalid_utf8_propagates:
  "handle_request loads embed_texts others st [0xFF] = (Inl PyUnicodeDecodeError, st) \<and>
   \<not> is_JSONDecodeError PyUnicodeDecodeError \<and>
   serve_frame loads embed_texts others st [0xFF] = (Closed, st)"
  by (simp add: handle_request_def serve_frame_def)





end
